theory Spec2Isabelle
  imports Main
begin

section \<open>The lazily initialised quadtree with lazy propagation\<close>

text \<open>
  The source is the class template \<^verbatim>\<open>quadtree<T>\<close>: a sparse two-dimensional array
  over the index range \<open>[0, MAXR] \<times> [0, MAXC]\<close> with rectangle updates and rectangle
  queries. Each source function is embedded as a HOL function of the same name
  (overloads get a suffix). Mutation of the tree is explicit: a function that
  takes \<^verbatim>\<open>node_t *&n\<close> returns the node that \<open>n\<close> points to afterwards, and the
  members of the class travel in a record.
\<close>

subsection \<open>Machine integers\<close>

text \<open>
  Row and column indices are C++ \<^verbatim>\<open>int\<close>s. Every index the recursion computes lies
  between \<open>0\<close> and \<open>MAXR + 1\<close>, so sums and differences of two of them are exact and
  the truncating division of \<^verbatim>\<open>(r1 + r2)/2\<close> agrees with \<open>div\<close>; indices are modelled
  as \<open>int\<close>. The products \<^verbatim>\<open>rlen*clen\<close> do leave the 32-bit range: \<open>int_mul\<close> is the
  32-bit two's complement product.
\<close>

definition int_mul :: "int \<Rightarrow> int \<Rightarrow> int" where
  "int_mul a b = (a * b + 2147483648) mod 4294967296 - 2147483648"

definition MAXR :: int where
  "MAXR = 1000000000"

definition MAXC :: int where
  "MAXC = 1000000000"

subsection \<open>The four operations that define values and deltas\<close>

record 'a policy =
  join_values :: "'a \<Rightarrow> 'a \<Rightarrow> 'a"
  join_region :: "'a \<Rightarrow> int \<Rightarrow> 'a"
  join_value_with_delta :: "'a \<Rightarrow> 'a \<Rightarrow> int \<Rightarrow> 'a"
  join_deltas :: "'a \<Rightarrow> 'a \<Rightarrow> 'a"

text \<open>The definitions in the source: queries for the minimum, updates that set.\<close>

definition default_policy :: "('a::linorder) policy" where
  "default_policy =
     \<lparr> join_values = (\<lambda>a b. min a b),
       join_region = (\<lambda>v area. v),
       join_value_with_delta = (\<lambda>v d area. d),
       join_deltas = (\<lambda>d1 d2. d2) \<rparr>"

text \<open>
  The other instance the header comment of the source documents: queries for the
  sum, updates that increment.
\<close>

definition sum_policy :: "int policy" where
  "sum_policy =
     \<lparr> join_values = (\<lambda>a b. a + b),
       join_region = (\<lambda>v area. v * area),
       join_value_with_delta = (\<lambda>v d area. v + d * area),
       join_deltas = (\<lambda>d1 d2. d1 + d2) \<rparr>"

subsection \<open>Nodes and the tree\<close>

text \<open>
  \<^verbatim>\<open>struct node_t { T value, delta; bool pending; node_t *child[4]; }\<close>. A null child
  is \<open>None\<close>. The constructor does not initialise \<open>delta\<close>; its content is then
  whatever the allocation holds, the parameter \<open>u\<close> of \<open>new_node\<close>.
\<close>

datatype 'a node_t =
  Node (nvalue: 'a) (ndelta: 'a) (pending: bool)
       (child0: "'a node_t option") (child1: "'a node_t option")
       (child2: "'a node_t option") (child3: "'a node_t option")

definition new_node :: "'a \<Rightarrow> 'a \<Rightarrow> 'a node_t" where
  "new_node u v = Node v u False None None None None"

text \<open>
  The members of the class: \<open>root\<close>, \<open>init\<close> and the helper variables. \<open>indet\<close> is
  not a member: it stands for the indeterminate content of the \<open>delta\<close> of a node
  that was just allocated.
\<close>

record 'a quadtree =
  root :: "'a node_t option"
  init :: 'a
  tgt_r1 :: int
  tgt_c1 :: int
  tgt_r2 :: int
  tgt_c2 :: int
  res :: 'a
  delta :: 'a
  found :: bool
  indet :: 'a

subsection \<open>Pushing a delta down\<close>

text \<open>\<^verbatim>\<open>void update_delta(node_t *&n, const T &d, int area)\<close>\<close>

definition update_delta_d ::
  "'a policy \<Rightarrow> 'a quadtree \<Rightarrow> 'a node_t option \<Rightarrow> 'a \<Rightarrow> int \<Rightarrow> 'a node_t" where
  "update_delta_d P t n d area =
     (case (case n of None \<Rightarrow> new_node (indet t) (join_region P (init t) area)
                    | Some m \<Rightarrow> m) of
        Node v dl p k0 k1 k2 k3 \<Rightarrow>
          Node v (if p then join_deltas P dl d else d) True k0 k1 k2 k3)"

text \<open>
  \<^verbatim>\<open>void update_delta(node_t *&n, int r1, int c1, int r2, int c2)\<close>. The delta it
  applies and hands to the children is the member \<open>delta\<close> of the tree.
\<close>

definition update_delta ::
  "'a policy \<Rightarrow> 'a quadtree \<Rightarrow> 'a node_t \<Rightarrow> int \<Rightarrow> int \<Rightarrow> int \<Rightarrow> int \<Rightarrow> 'a node_t" where
  "update_delta P t n r1 c1 r2 c2 =
     (case n of Node v dl p k0 k1 k2 k3 \<Rightarrow>
        if p then
          (let rmid = (r1 + r2) div 2; cmid = (c1 + c2) div 2;
               rlen = r2 - r1 + 1; clen = c2 - c1 + 1;
               v' = join_value_with_delta P v (delta t) (int_mul rlen clen)
           in if int_mul rlen clen > 1 then
                (let rlen1 = rmid - r1 + 1; rlen2 = rlen - rlen1;
                     clen1 = cmid - c1 + 1; clen2 = clen - clen1
                 in Node v' dl False
                      (Some (update_delta_d P t k0 (delta t) (int_mul rlen1 clen1)))
                      (Some (update_delta_d P t k1 (delta t) (int_mul rlen2 clen1)))
                      (Some (update_delta_d P t k2 (delta t) (int_mul rlen1 clen2)))
                      (Some (update_delta_d P t k3 (delta t) (int_mul rlen2 clen2))))
              else Node v' dl False k0 k1 k2 k3)
        else Node v dl False k0 k1 k2 k3)"

subsection \<open>The tests against the target rectangle\<close>

text \<open>
  The two conditions that \<^verbatim>\<open>update\<close> and \<^verbatim>\<open>query\<close> both evaluate on the rectangle
  of the node and the target rectangle held in the helper variables.
\<close>

definition outside :: "'a quadtree \<Rightarrow> int \<Rightarrow> int \<Rightarrow> int \<Rightarrow> int \<Rightarrow> bool" where
  "outside t r1 c1 r2 c2 \<longleftrightarrow>
     tgt_r2 t < r1 \<or> tgt_r1 t > r2 \<or> tgt_c2 t < c1 \<or> tgt_c1 t > c2"

definition inside :: "'a quadtree \<Rightarrow> int \<Rightarrow> int \<Rightarrow> int \<Rightarrow> int \<Rightarrow> bool" where
  "inside t r1 c1 r2 c2 \<longleftrightarrow>
     tgt_r1 t \<le> r1 \<and> r2 \<le> tgt_r2 t \<and> tgt_c1 t \<le> c1 \<and> c2 \<le> tgt_c2 t"

text \<open>
  The measure of the descent: a side counts with its length when it has at least
  two indices, and with zero otherwise.
\<close>

definition side :: "int \<Rightarrow> int \<Rightarrow> nat" where
  "side lo hi = (if lo < hi then nat (hi - lo + 1) else 0)"

definition rank :: "int \<Rightarrow> int \<Rightarrow> int \<Rightarrow> int \<Rightarrow> nat" where
  "rank r1 c1 r2 c2 = side r1 r2 + side c1 c2"

lemma side_low: "lo < hi \<Longrightarrow> side lo ((lo + hi) div 2) < side lo hi"
  by (auto simp: side_def)

lemma side_high: "lo < hi \<Longrightarrow> side ((lo + hi) div 2 + 1) hi < side lo hi"
  by (auto simp: side_def)

lemma side_low_flat: "\<not> lo < hi \<Longrightarrow> side lo ((lo + hi) div 2) = 0"
  by (auto simp: side_def)

lemma side_high_flat: "\<not> lo < hi \<Longrightarrow> side ((lo + hi) div 2 + 1) hi = 0"
  by (auto simp: side_def)

lemma side_low_le: "side lo ((lo + hi) div 2) \<le> side lo hi"
  by (cases "lo < hi") (simp_all add: side_low less_imp_le side_low_flat)

lemma side_high_le: "side ((lo + hi) div 2 + 1) hi \<le> side lo hi"
  by (cases "lo < hi") (simp_all add: side_high less_imp_le side_high_flat)

lemma partial_has_long_side:
  "\<not> outside t r1 c1 r2 c2 \<Longrightarrow> \<not> inside t r1 c1 r2 c2 \<Longrightarrow> r1 < r2 \<or> c1 < c2"
  by (auto simp: outside_def inside_def)

lemma rank_quadrants:
  assumes "r1 < r2 \<or> c1 < c2"
  shows "rank r1 c1 ((r1 + r2) div 2) ((c1 + c2) div 2) < rank r1 c1 r2 c2"
    and "rank ((r1 + r2) div 2 + 1) c1 r2 ((c1 + c2) div 2) < rank r1 c1 r2 c2"
    and "rank r1 ((c1 + c2) div 2 + 1) ((r1 + r2) div 2) c2 < rank r1 c1 r2 c2"
    and "rank ((r1 + r2) div 2 + 1) ((c1 + c2) div 2 + 1) r2 c2 < rank r1 c1 r2 c2"
proof -
  note le = side_low_le [of r1 r2] side_high_le [of r1 r2]
            side_low_le [of c1 c2] side_high_le [of c1 c2]
  from assms show
    "rank r1 c1 ((r1 + r2) div 2) ((c1 + c2) div 2) < rank r1 c1 r2 c2"
    using le side_low [of r1 r2] side_low [of c1 c2]
    unfolding rank_def by linarith
  from assms show
    "rank ((r1 + r2) div 2 + 1) c1 r2 ((c1 + c2) div 2) < rank r1 c1 r2 c2"
    using le side_high [of r1 r2] side_low [of c1 c2]
    unfolding rank_def by linarith
  from assms show
    "rank r1 ((c1 + c2) div 2 + 1) ((r1 + r2) div 2) c2 < rank r1 c1 r2 c2"
    using le side_low [of r1 r2] side_high [of c1 c2]
    unfolding rank_def by linarith
  from assms show
    "rank ((r1 + r2) div 2 + 1) ((c1 + c2) div 2 + 1) r2 c2 < rank r1 c1 r2 c2"
    using le side_high [of r1 r2] side_high [of c1 c2]
    unfolding rank_def by linarith
qed

subsection \<open>Update\<close>

text \<open>
  The loop that ends the private \<^verbatim>\<open>update\<close>: the value of the node becomes the
  join of the values of \<open>child[0]\<close> to \<open>child[3]\<close>, in this order, the first one
  taken as it is.
\<close>

definition join_children :: "'a policy \<Rightarrow> 'a node_t list \<Rightarrow> 'a \<Rightarrow> 'a" where
  "join_children P ks v0 =
     fst (foldl (\<lambda>(v, fnd) k.
                   ((if fnd then join_values P v (nvalue k) else nvalue k), True))
                (v0, False) ks)"

text \<open>\<^verbatim>\<open>void update(node_t *&n, int r1, int c1, int r2, int c2)\<close>\<close>

function update_n ::
  "'a policy \<Rightarrow> 'a quadtree \<Rightarrow> 'a node_t option \<Rightarrow> int \<Rightarrow> int \<Rightarrow> int \<Rightarrow> int \<Rightarrow> 'a node_t" where
  "update_n P t n r1 c1 r2 c2 =
     (let n1 = (case n of
                  None \<Rightarrow> new_node (indet t)
                            (join_region P (init t) (int_mul (r2 - r1 + 1) (c2 - r1 + 1)))
                | Some m \<Rightarrow> m);
          n2 = update_delta P t n1 r1 c1 r2 c2
      in if outside t r1 c1 r2 c2 then n2
         else if inside t r1 c1 r2 c2 then
           update_delta P t
             (Node (nvalue n2) (ndelta n2) True
                   (child0 n2) (child1 n2) (child2 n2) (child3 n2))
             r1 c1 r2 c2
         else
           (let rmid = (r1 + r2) div 2; cmid = (c1 + c2) div 2;
                k0 = update_n P t (child0 n2) r1 c1 rmid cmid;
                k1 = update_n P t (child1 n2) (rmid + 1) c1 r2 cmid;
                k2 = update_n P t (child2 n2) r1 (cmid + 1) rmid c2;
                k3 = update_n P t (child3 n2) (rmid + 1) (cmid + 1) r2 c2
            in Node (join_children P [k0, k1, k2, k3] (nvalue n2)) (ndelta n2) (pending n2)
                    (Some k0) (Some k1) (Some k2) (Some k3)))"
  by pat_completeness auto
termination
  by (relation "measure (\<lambda>(P, t, n, r1, c1, r2, c2). rank r1 c1 r2 c2)")
     (auto dest!: partial_has_long_side simp: rank_quadrants)

text \<open>\<^verbatim>\<open>void update(int r1, int c1, int r2, int c2, const T &d)\<close>\<close>

definition update ::
  "'a policy \<Rightarrow> int \<Rightarrow> int \<Rightarrow> int \<Rightarrow> int \<Rightarrow> 'a \<Rightarrow> 'a quadtree \<Rightarrow> 'a quadtree" where
  "update P r1 c1 r2 c2 d t =
     (let t1 = t\<lparr>tgt_r1 := r1, tgt_c1 := c1, tgt_r2 := r2, tgt_c2 := c2, delta := d\<rparr>
      in t1\<lparr>root := Some (update_n P t1 (root t1) 0 0 MAXR MAXC)\<rparr>)"

text \<open>\<^verbatim>\<open>void update(int r, int c, const T &d)\<close>\<close>

definition update_at :: "'a policy \<Rightarrow> int \<Rightarrow> int \<Rightarrow> 'a \<Rightarrow> 'a quadtree \<Rightarrow> 'a quadtree" where
  "update_at P r c d t = update P r c r c d t"

subsection \<open>Query\<close>

text \<open>
  \<^verbatim>\<open>res = found ? join_values(res, v) : v; found = true;\<close>, the statement by which
  \<^verbatim>\<open>query\<close> adds a contribution to its result.
\<close>

definition contribute :: "'a policy \<Rightarrow> 'a \<Rightarrow> 'a quadtree \<Rightarrow> 'a quadtree" where
  "contribute P v t =
     t\<lparr>res := (if found t then join_values P (res t) v else v), found := True\<rparr>"

text \<open>
  \<^verbatim>\<open>void query(node_t *n, int r1, int c1, int r2, int c2)\<close>. The call changes the
  node (it pushes a pending delta down) and the members \<open>res\<close> and \<open>found\<close>; both
  are returned.
\<close>

function query_n ::
  "'a policy \<Rightarrow> 'a quadtree \<Rightarrow> 'a node_t option \<Rightarrow> int \<Rightarrow> int \<Rightarrow> int \<Rightarrow> int
     \<Rightarrow> 'a node_t option \<times> 'a quadtree" where
  "query_n P t n r1 c1 r2 c2 =
     (if outside t r1 c1 r2 c2 then (n, t)
      else case n of
        None \<Rightarrow>
          (let rlen = min r2 (tgt_r2 t) - max r1 (tgt_r1 t) + 1;
               clen = min c2 (tgt_c2 t) - max c1 (tgt_c1 t) + 1;
               v = join_region P (init t) (int_mul rlen clen)
           in (None, contribute P v t))
      | Some m \<Rightarrow>
          (let n2 = update_delta P t m r1 c1 r2 c2
           in if inside t r1 c1 r2 c2 then (Some n2, contribute P (nvalue n2) t)
              else
                (let rmid = (r1 + r2) div 2; cmid = (c1 + c2) div 2;
                     (k0, t0) = query_n P t (child0 n2) r1 c1 rmid cmid;
                     (k1, t1) = query_n P t0 (child1 n2) (rmid + 1) c1 r2 cmid;
                     (k2, t2) = query_n P t1 (child2 n2) r1 (cmid + 1) rmid c2;
                     (k3, t3) = query_n P t2 (child3 n2) (rmid + 1) (cmid + 1) r2 c2
                 in (Some (Node (nvalue n2) (ndelta n2) (pending n2) k0 k1 k2 k3), t3))))"
  by pat_completeness auto
termination
  by (relation "measure (\<lambda>(P, t, n, r1, c1, r2, c2). rank r1 c1 r2 c2)")
     (auto dest!: partial_has_long_side simp: rank_quadrants)

declare update_n.simps [simp del] query_n.simps [simp del]

text \<open>\<^verbatim>\<open>T query(int r1, int c1, int r2, int c2)\<close>: the result and the tree afterwards.\<close>

definition query ::
  "'a policy \<Rightarrow> int \<Rightarrow> int \<Rightarrow> int \<Rightarrow> int \<Rightarrow> 'a quadtree \<Rightarrow> 'a \<times> 'a quadtree" where
  "query P r1 c1 r2 c2 t =
     (let t1 = t\<lparr>tgt_r1 := r1, tgt_c1 := c1, tgt_r2 := r2, tgt_c2 := c2, found := False\<rparr>;
          (n, t2) = query_n P t1 (root t1) 0 0 MAXR MAXC
      in ((if found t2 then res t2
           else join_region P (init t2) (int_mul (r2 - r1 + 1) (c2 - c1 + 1))),
          t2\<lparr>root := n\<rparr>))"

text \<open>\<^verbatim>\<open>T at(int r, int c)\<close>\<close>

definition at :: "'a policy \<Rightarrow> int \<Rightarrow> int \<Rightarrow> 'a quadtree \<Rightarrow> 'a \<times> 'a quadtree" where
  "at P r c t = query P r c r c t"

subsection \<open>Construction\<close>

text \<open>
  \<^verbatim>\<open>quadtree(const T &v = T())\<close> sets \<open>root\<close> and \<open>init\<close> and leaves the helper
  variables as they are: \<open>h\<close> is the content they happen to have.
\<close>

definition quadtree :: "'a \<Rightarrow> 'a quadtree \<Rightarrow> 'a quadtree" where
  "quadtree v h = h\<lparr>root := None, init := v\<rparr>"

subsection \<open>Sequences of calls\<close>

text \<open>
  A caller's sequence of calls on one tree. \<open>exec\<close> runs it from left to right and
  collects what the queries return.
\<close>

datatype 'a call =
  Update int int int int 'a
| UpdateAt int int 'a
| Query int int int int
| At int int

fun exec :: "'a policy \<Rightarrow> 'a call list \<Rightarrow> 'a quadtree \<Rightarrow> 'a list \<times> 'a quadtree" where
  "exec P [] t = ([], t)"
| "exec P (Update r1 c1 r2 c2 d # cs) t = exec P cs (update P r1 c1 r2 c2 d t)"
| "exec P (UpdateAt r c d # cs) t = exec P cs (update_at P r c d t)"
| "exec P (Query r1 c1 r2 c2 # cs) t =
     (let (v, t1) = query P r1 c1 r2 c2 t; (vs, t2) = exec P cs t1 in (v # vs, t2))"
| "exec P (At r c # cs) t =
     (let (v, t1) = at P r c t; (vs, t2) = exec P cs t1 in (v # vs, t2))"

text \<open>The calls of \<^verbatim>\<open>main()\<close> in the source, on \<^verbatim>\<open>quadtree<int> t(0)\<close>.\<close>

definition main_calls :: "int call list" where
  "main_calls =
     [UpdateAt 0 0 7, UpdateAt 0 1 6, UpdateAt 1 1 4, UpdateAt 2 1 1, UpdateAt 2 2 4,
      Update 0 2 3 2 9, Update 2 0 2 2 9,
      At 0 0, At 0 1, At 0 2, At 1 0, At 1 1, At 1 2, At 2 0, At 2 1, At 2 2,
      Query 0 0 0 1, Query 0 0 1 0, Query 1 1 2 2, Query 0 0 1000000000 1000000000,
      Update 0 500000000 0 500000000 (- 100),
      Query 0 0 1000000000 1000000000]"

text \<open>
  The helper variables of a tree on which no member function has run yet, for the
  closed instances below.
\<close>

definition blank :: "int quadtree" where
  "blank = \<lparr> root = None, init = 0, tgt_r1 = 0, tgt_c1 = 0, tgt_r2 = 0, tgt_c2 = 0,
             res = 0, delta = 0, found = False, indet = 0 \<rparr>"

text \<open>
  The preconditions of the four public member functions: \<open>r1 \<le> r2\<close>, \<open>c1 \<le> c2\<close> and
  all indices within \<open>[0, MAXR] \<times> [0, MAXC]\<close>.
\<close>

fun valid_call :: "'a call \<Rightarrow> bool" where
  "valid_call (Update r1 c1 r2 c2 d) \<longleftrightarrow>
     0 \<le> r1 \<and> r1 \<le> r2 \<and> r2 \<le> MAXR \<and> 0 \<le> c1 \<and> c1 \<le> c2 \<and> c2 \<le> MAXC"
| "valid_call (UpdateAt r c d) \<longleftrightarrow> 0 \<le> r \<and> r \<le> MAXR \<and> 0 \<le> c \<and> c \<le> MAXC"
| "valid_call (Query r1 c1 r2 c2) \<longleftrightarrow>
     0 \<le> r1 \<and> r1 \<le> r2 \<and> r2 \<le> MAXR \<and> 0 \<le> c1 \<and> c1 \<le> c2 \<and> c2 \<le> MAXC"
| "valid_call (At r c) \<longleftrightarrow> 0 \<le> r \<and> r \<le> MAXR \<and> 0 \<le> c \<and> c \<le> MAXC"

subsection \<open>Notions used to state the properties\<close>

text \<open>
  The node as the private \<^verbatim>\<open>update\<close> has it after its first two statements:
  created if it was null, and with its pending delta pushed down.
\<close>

definition arrive ::
  "'a policy \<Rightarrow> 'a quadtree \<Rightarrow> 'a node_t option \<Rightarrow> int \<Rightarrow> int \<Rightarrow> int \<Rightarrow> int \<Rightarrow> 'a node_t" where
  "arrive P t n r1 c1 r2 c2 =
     update_delta P t
       (case n of
          None \<Rightarrow> new_node (indet t)
                    (join_region P (init t) (int_mul (r2 - r1 + 1) (c2 - r1 + 1)))
        | Some m \<Rightarrow> m)
       r1 c1 r2 c2"

text \<open>
  The four quadrants of a rectangle in the words of the specification: split at
  the floor midpoints of the rows and of the columns, listed in the order of
  \<open>child[0]\<close> to \<open>child[3]\<close>.
\<close>

type_synonym rect = "int \<times> int \<times> int \<times> int"

definition quadrants :: "int \<Rightarrow> int \<Rightarrow> int \<Rightarrow> int \<Rightarrow> rect list" where
  "quadrants r1 c1 r2 c2 =
     (let rmid = (r1 + r2) div 2; cmid = (c1 + c2) div 2
      in [(r1, c1, rmid, cmid), (rmid + 1, c1, r2, cmid),
          (r1, cmid + 1, rmid, c2), (rmid + 1, cmid + 1, r2, c2)])"

text \<open>
  A rectangle that the recursion can reach from the root: indices within the
  bounds, a side possibly empty (\<open>r1 = r2 + 1\<close>). \<open>holds R r c\<close>: the cell \<open>(r, c)\<close>
  lies in \<open>R\<close>.
\<close>

definition within :: "rect \<Rightarrow> bool" where
  "within R =
     (case R of (r1, c1, r2, c2) \<Rightarrow>
        0 \<le> r1 \<and> r1 \<le> r2 + 1 \<and> r2 \<le> MAXR \<and> 0 \<le> c1 \<and> c1 \<le> c2 + 1 \<and> c2 \<le> MAXC)"

definition holds :: "rect \<Rightarrow> int \<Rightarrow> int \<Rightarrow> bool" where
  "holds R r c = (case R of (r1, c1, r2, c2) \<Rightarrow> r1 \<le> r \<and> r \<le> r2 \<and> c1 \<le> c \<and> c \<le> c2)"

definition children :: "'a node_t \<Rightarrow> 'a node_t option list" where
  "children n = [child0 n, child1 n, child2 n, child3 n]"

text \<open>
  The two tests of the recursion, for a target rectangle \<open>T\<close> given as a tuple
  \<open>(r1, c1, r2, c2)\<close>; \<open>target\<close> is the one the helper variables hold.
\<close>

definition misses :: "rect \<Rightarrow> int \<Rightarrow> int \<Rightarrow> int \<Rightarrow> int \<Rightarrow> bool" where
  "misses T r1 c1 r2 c2 =
     (case T of (a1, b1, a2, b2) \<Rightarrow> a2 < r1 \<or> a1 > r2 \<or> b2 < c1 \<or> b1 > c2)"

definition covers :: "rect \<Rightarrow> int \<Rightarrow> int \<Rightarrow> int \<Rightarrow> int \<Rightarrow> bool" where
  "covers T r1 c1 r2 c2 =
     (case T of (a1, b1, a2, b2) \<Rightarrow> a1 \<le> r1 \<and> r2 \<le> a2 \<and> b1 \<le> c1 \<and> c2 \<le> b2)"

definition proper :: "rect \<Rightarrow> bool" where
  "proper T = (case T of (a1, b1, a2, b2) \<Rightarrow> a1 \<le> a2 \<and> b1 \<le> b2)"

definition target :: "'a quadtree \<Rightarrow> rect" where
  "target t = (tgt_r1 t, tgt_c1 t, tgt_r2 t, tgt_c2 t)"

text \<open>Two rectangles with no cell in common.\<close>

definition apart :: "rect \<Rightarrow> rect \<Rightarrow> bool" where
  "apart T R = (case R of (r1, c1, r2, c2) \<Rightarrow> misses T r1 c1 r2 c2)"

text \<open>The rectangles that the updates of a sequence of calls were given.\<close>

fun targets :: "'a call list \<Rightarrow> rect list" where
  "targets [] = []"
| "targets (Update r1 c1 r2 c2 d # cs) = (r1, c1, r2, c2) # targets cs"
| "targets (UpdateAt r c d # cs) = (r, c, r, c) # targets cs"
| "targets (Query r1 c1 r2 c2 # cs) = targets cs"
| "targets (At r c # cs) = targets cs"

text \<open>
  The invariant behind the default of untouched regions. \<open>Ts\<close> are the rectangles
  updated so far and \<open>v\<close> is \<open>init\<close>. A node whose rectangle some update covered may
  be in any state. Any other node has no pending delta; if every update missed
  its rectangle it still is as it was created, with value \<open>v\<close> and no children;
  otherwise its children satisfy the invariant on their quadrants.
\<close>

definition covered :: "rect list \<Rightarrow> int \<Rightarrow> int \<Rightarrow> int \<Rightarrow> int \<Rightarrow> bool" where
  "covered Ts r1 c1 r2 c2 =
     list_ex (\<lambda>T. covers T r1 c1 r2 c2 \<and> \<not> misses T r1 c1 r2 c2) Ts"

definition missed :: "rect list \<Rightarrow> int \<Rightarrow> int \<Rightarrow> int \<Rightarrow> int \<Rightarrow> bool" where
  "missed Ts r1 c1 r2 c2 = list_all (\<lambda>T. misses T r1 c1 r2 c2) Ts"

fun clean :: "rect list \<Rightarrow> 'a \<Rightarrow> 'a node_t \<Rightarrow> int \<Rightarrow> int \<Rightarrow> int \<Rightarrow> int \<Rightarrow> bool" where
  "clean Ts v (Node x dl p k0 k1 k2 k3) r1 c1 r2 c2 =
     (if list_ex (\<lambda>T. covers T r1 c1 r2 c2 \<and> \<not> misses T r1 c1 r2 c2) Ts then True
      else \<not> p \<and>
        (if list_all (\<lambda>T. misses T r1 c1 r2 c2) Ts
         then x = v \<and> k0 = None \<and> k1 = None \<and> k2 = None \<and> k3 = None
         else (let rmid = (r1 + r2) div 2; cmid = (c1 + c2) div 2
               in (case k0 of None \<Rightarrow> True | Some k \<Rightarrow> clean Ts v k r1 c1 rmid cmid) \<and>
                  (case k1 of None \<Rightarrow> True | Some k \<Rightarrow> clean Ts v k (rmid + 1) c1 r2 cmid) \<and>
                  (case k2 of None \<Rightarrow> True | Some k \<Rightarrow> clean Ts v k r1 (cmid + 1) rmid c2) \<and>
                  (case k3 of None \<Rightarrow> True
                   | Some k \<Rightarrow> clean Ts v k (rmid + 1) (cmid + 1) r2 c2))))"

declare clean.simps [simp del]

definition clean_opt ::
  "rect list \<Rightarrow> 'a \<Rightarrow> 'a node_t option \<Rightarrow> int \<Rightarrow> int \<Rightarrow> int \<Rightarrow> int \<Rightarrow> bool" where
  "clean_opt Ts v n r1 c1 r2 c2 =
     (case n of None \<Rightarrow> True | Some m \<Rightarrow> clean Ts v m r1 c1 r2 c2)"

definition tidy :: "rect list \<Rightarrow> 'a \<Rightarrow> 'a quadtree \<Rightarrow> bool" where
  "tidy Ts v t \<longleftrightarrow> init t = v \<and> clean_opt Ts v (root t) 0 0 MAXR MAXC"

text \<open>The result a query has collected so far is \<open>v\<close>, if it has collected any.\<close>

definition settled :: "'a \<Rightarrow> 'a quadtree \<Rightarrow> bool" where
  "settled v t \<longleftrightarrow> \<not> found t \<or> res t = v"


text \<open>
  The quadrants by their compass names, on the grid as the specification lays it
  out: rows run from north to south and columns from west to east, and the
  rectangle is split at the floor midpoints of its rows and of its columns.
\<close>

definition nw :: "int \<Rightarrow> int \<Rightarrow> int \<Rightarrow> int \<Rightarrow> rect" where
  "nw r1 c1 r2 c2 = (r1, c1, (r1 + r2) div 2, (c1 + c2) div 2)"

definition ne :: "int \<Rightarrow> int \<Rightarrow> int \<Rightarrow> int \<Rightarrow> rect" where
  "ne r1 c1 r2 c2 = (r1, (c1 + c2) div 2 + 1, (r1 + r2) div 2, c2)"

definition sw :: "int \<Rightarrow> int \<Rightarrow> int \<Rightarrow> int \<Rightarrow> rect" where
  "sw r1 c1 r2 c2 = ((r1 + r2) div 2 + 1, c1, r2, (c1 + c2) div 2)"

definition se :: "int \<Rightarrow> int \<Rightarrow> int \<Rightarrow> int \<Rightarrow> rect" where
  "se r1 c1 r2 c2 = ((r1 + r2) div 2 + 1, (c1 + c2) div 2 + 1, r2, c2)"




section \<open>Properties\<close>

subsection \<open>The rectangles of the recursion\<close>

text \<open>
  The quadrants of a rectangle within the bounds are within the bounds: all
  indices of the recursion from the root lie in \<open>[0, MAXR + 1]\<close>, where \<^verbatim>\<open>(r1 + r2)/2\<close> is
  exact in \<^verbatim>\<open>int\<close> and rounds as \<open>div\<close> does.
\<close>

lemma quadrants_within:
  "within (r1, c1, r2, c2) \<Longrightarrow> list_all within (quadrants r1 c1 r2 c2)"
  by (auto simp: within_def quadrants_def Let_def)

lemma root_within: "within (0, 0, MAXR, MAXC)"
  by (simp add: within_def MAXR_def MAXC_def)

lemma quadrants_compass:
  "quadrants r1 c1 r2 c2 = [nw r1 c1 r2 c2, sw r1 c1 r2 c2, ne r1 c1 r2 c2, se r1 c1 r2 c2]"
  by (simp add: quadrants_def Let_def nw_def sw_def ne_def se_def)

subsection \<open>The cases of update\<close>

text \<open>
  The private \<^verbatim>\<open>update\<close> case by case, an induction rule that follows its recursion, and
  what a second run of it does under a policy that sets.
\<close>

lemma update_delta_idle: "\<not> pending m \<Longrightarrow> update_delta P t m r1 c1 r2 c2 = m"
  by (cases m) (simp add: update_delta_def)

lemma pending_update_delta: "\<not> pending (update_delta P t m r1 c1 r2 c2)"
  by (cases m) (simp add: update_delta_def Let_def)

lemma ndelta_update_delta: "ndelta (update_delta P t m r1 c1 r2 c2) = ndelta m"
  by (cases m) (simp add: update_delta_def Let_def)

lemma join_children4:
  "join_children P [k0, k1, k2, k3] v =
     join_values P (join_values P (join_values P (nvalue k0) (nvalue k1)) (nvalue k2)) (nvalue k3)"
  by (simp add: join_children_def)

lemma update_n_outside:
  "outside t r1 c1 r2 c2 \<Longrightarrow> update_n P t n r1 c1 r2 c2 = arrive P t n r1 c1 r2 c2"
  by (subst update_n.simps) (simp add: arrive_def Let_def)

lemma update_n_inside:
  "\<not> outside t r1 c1 r2 c2 \<Longrightarrow> inside t r1 c1 r2 c2 \<Longrightarrow>
   update_n P t n r1 c1 r2 c2 =
     (let n2 = arrive P t n r1 c1 r2 c2
      in update_delta P t
           (Node (nvalue n2) (ndelta n2) True (child0 n2) (child1 n2) (child2 n2) (child3 n2))
           r1 c1 r2 c2)"
  by (subst update_n.simps) (simp add: arrive_def Let_def)

lemma update_n_partial:
  "\<not> outside t r1 c1 r2 c2 \<Longrightarrow> \<not> inside t r1 c1 r2 c2 \<Longrightarrow>
   update_n P t n r1 c1 r2 c2 =
     (let n2 = arrive P t n r1 c1 r2 c2;
          rmid = (r1 + r2) div 2; cmid = (c1 + c2) div 2;
          k0 = update_n P t (child0 n2) r1 c1 rmid cmid;
          k1 = update_n P t (child1 n2) (rmid + 1) c1 r2 cmid;
          k2 = update_n P t (child2 n2) r1 (cmid + 1) rmid c2;
          k3 = update_n P t (child3 n2) (rmid + 1) (cmid + 1) r2 c2
      in Node (join_values P (join_values P (join_values P (nvalue k0) (nvalue k1)) (nvalue k2))
                 (nvalue k3))
              (ndelta n2) False (Some k0) (Some k1) (Some k2) (Some k3))"
  by (subst update_n.simps) (simp add: arrive_def Let_def join_children4 pending_update_delta)

lemma update_n_induct [case_names descent]:
  assumes "\<And>P t n r1 c1 r2 c2.
     (\<not> outside t r1 c1 r2 c2 \<Longrightarrow> \<not> inside t r1 c1 r2 c2 \<Longrightarrow>
        Q P t (child0 (arrive P t n r1 c1 r2 c2)) r1 c1 ((r1 + r2) div 2) ((c1 + c2) div 2)) \<Longrightarrow>
     (\<not> outside t r1 c1 r2 c2 \<Longrightarrow> \<not> inside t r1 c1 r2 c2 \<Longrightarrow>
        Q P t (child1 (arrive P t n r1 c1 r2 c2)) ((r1 + r2) div 2 + 1) c1 r2 ((c1 + c2) div 2)) \<Longrightarrow>
     (\<not> outside t r1 c1 r2 c2 \<Longrightarrow> \<not> inside t r1 c1 r2 c2 \<Longrightarrow>
        Q P t (child2 (arrive P t n r1 c1 r2 c2)) r1 ((c1 + c2) div 2 + 1) ((r1 + r2) div 2) c2) \<Longrightarrow>
     (\<not> outside t r1 c1 r2 c2 \<Longrightarrow> \<not> inside t r1 c1 r2 c2 \<Longrightarrow>
        Q P t (child3 (arrive P t n r1 c1 r2 c2)) ((r1 + r2) div 2 + 1) ((c1 + c2) div 2 + 1) r2 c2) \<Longrightarrow>
     Q P t n r1 c1 r2 c2"
  shows "Q P t n r1 c1 r2 c2"
proof (induction P t n r1 c1 r2 c2 rule: update_n.induct)
  case (1 P t n r1 c1 r2 c2)
  show ?case
  proof (rule assms)
    assume "\<not> outside t r1 c1 r2 c2" "\<not> inside t r1 c1 r2 c2"
    then show "Q P t (child0 (arrive P t n r1 c1 r2 c2)) r1 c1 ((r1 + r2) div 2) ((c1 + c2) div 2)"
      unfolding arrive_def by (rule "1.IH"(1) [OF refl refl _ _ refl refl])
  next
    assume "\<not> outside t r1 c1 r2 c2" "\<not> inside t r1 c1 r2 c2"
    then show "Q P t (child1 (arrive P t n r1 c1 r2 c2)) ((r1 + r2) div 2 + 1) c1 r2 ((c1 + c2) div 2)"
      unfolding arrive_def by (rule "1.IH"(2) [OF refl refl _ _ refl refl refl])
  next
    assume "\<not> outside t r1 c1 r2 c2" "\<not> inside t r1 c1 r2 c2"
    then show "Q P t (child2 (arrive P t n r1 c1 r2 c2)) r1 ((c1 + c2) div 2 + 1) ((r1 + r2) div 2) c2"
      unfolding arrive_def by (rule "1.IH"(3) [OF refl refl _ _ refl refl refl refl])
  next
    assume "\<not> outside t r1 c1 r2 c2" "\<not> inside t r1 c1 r2 c2"
    then show "Q P t (child3 (arrive P t n r1 c1 r2 c2)) ((r1 + r2) div 2 + 1) ((c1 + c2) div 2 + 1) r2 c2"
      unfolding arrive_def by (rule "1.IH"(4) [OF refl refl _ _ refl refl refl refl refl])
  qed
qed

lemma pending_arrive: "\<not> pending (arrive P t n r1 c1 r2 c2)"
  by (simp add: arrive_def pending_update_delta)

lemma arrive_idle: "\<not> pending m \<Longrightarrow> arrive P t (Some m) r1 c1 r2 c2 = m"
  by (simp add: arrive_def update_delta_idle)

lemma pending_update_n: "\<not> pending (update_n P t n r1 c1 r2 c2)"
proof (cases "outside t r1 c1 r2 c2")
  case True
  then show ?thesis by (simp add: update_n_outside pending_arrive)
next
  case False
  then show ?thesis
    by (cases "inside t r1 c1 r2 c2")
       (simp_all add: update_n_inside update_n_partial Let_def pending_update_delta)
qed

lemma update_delta_d_again:
  assumes "\<And>a b. join_deltas P a b = b"
  shows "update_delta_d P t (Some (update_delta_d P t k d a)) d a' = update_delta_d P t k d a"
  by (simp add: update_delta_d_def assms split: option.split node_t.split)

lemma resolve_again:
  assumes "\<And>v d a. join_value_with_delta P v d a = d" and "\<And>a b. join_deltas P a b = b"
  shows "update_delta P t
           (Node (nvalue (update_delta P t (Node v dl True k0 k1 k2 k3) r1 c1 r2 c2))
                 (ndelta (update_delta P t (Node v dl True k0 k1 k2 k3) r1 c1 r2 c2)) True
                 (child0 (update_delta P t (Node v dl True k0 k1 k2 k3) r1 c1 r2 c2))
                 (child1 (update_delta P t (Node v dl True k0 k1 k2 k3) r1 c1 r2 c2))
                 (child2 (update_delta P t (Node v dl True k0 k1 k2 k3) r1 c1 r2 c2))
                 (child3 (update_delta P t (Node v dl True k0 k1 k2 k3) r1 c1 r2 c2)))
           r1 c1 r2 c2 =
         update_delta P t (Node v dl True k0 k1 k2 k3) r1 c1 r2 c2"
  by (simp add: update_delta_def Let_def assms update_delta_d_again)

lemma update_n_again:
  assumes "\<And>v d a. join_value_with_delta P v d a = d" and "\<And>a b. join_deltas P a b = b"
  shows "update_n P t (Some (update_n P t n r1 c1 r2 c2)) r1 c1 r2 c2 =
         update_n P t n r1 c1 r2 c2"
  using assms
proof (induction P t n r1 c1 r2 c2 rule: update_n_induct)
  case (descent P t n r1 c1 r2 c2)
  let ?U = "update_n P t n r1 c1 r2 c2"
  have idle: "arrive P t (Some ?U) r1 c1 r2 c2 = ?U"
    by (rule arrive_idle) (rule pending_update_n)
  show ?case
  proof (cases "outside t r1 c1 r2 c2")
    case True
    then show ?thesis by (simp add: update_n_outside [of t r1 c1 r2 c2 P "Some _"] idle)
  next
    case out: False
    show ?thesis
    proof (cases "inside t r1 c1 r2 c2")
      case True
      obtain v dl p k0 k1 k2 k3 where n2: "arrive P t n r1 c1 r2 c2 = Node v dl p k0 k1 k2 k3"
        by (cases "arrive P t n r1 c1 r2 c2")
      have U: "?U = update_delta P t (Node v dl True k0 k1 k2 k3) r1 c1 r2 c2"
        using out True by (simp add: update_n_inside n2 Let_def)
      have "update_n P t (Some ?U) r1 c1 r2 c2 =
            update_delta P t
              (Node (nvalue ?U) (ndelta ?U) True (child0 ?U) (child1 ?U) (child2 ?U) (child3 ?U))
              r1 c1 r2 c2"
        using out True by (simp add: update_n_inside [of t r1 c1 r2 c2 P "Some _"] idle Let_def)
      also have "\<dots> = ?U"
        unfolding U by (rule resolve_again) (rule descent.prems)+
      finally show ?thesis .
    next
      case False
      note ih = descent.IH(1) [OF out False descent.prems] descent.IH(2) [OF out False descent.prems]
                descent.IH(3) [OF out False descent.prems] descent.IH(4) [OF out False descent.prems]
      define n2 where "n2 = arrive P t n r1 c1 r2 c2"
      define k0 where "k0 = update_n P t (child0 n2) r1 c1 ((r1 + r2) div 2) ((c1 + c2) div 2)"
      define k1 where "k1 = update_n P t (child1 n2) ((r1 + r2) div 2 + 1) c1 r2 ((c1 + c2) div 2)"
      define k2 where "k2 = update_n P t (child2 n2) r1 ((c1 + c2) div 2 + 1) ((r1 + r2) div 2) c2"
      define k3 where
        "k3 = update_n P t (child3 n2) ((r1 + r2) div 2 + 1) ((c1 + c2) div 2 + 1) r2 c2"
      define J where
        "J = join_values P (join_values P (join_values P (nvalue k0) (nvalue k1)) (nvalue k2))
               (nvalue k3)"
      have U: "?U = Node J (ndelta n2) False (Some k0) (Some k1) (Some k2) (Some k3)"
        using out False
        by (simp add: update_n_partial Let_def n2_def k0_def k1_def k2_def k3_def J_def)
      have again: "update_n P t (Some k0) r1 c1 ((r1 + r2) div 2) ((c1 + c2) div 2) = k0"
        "update_n P t (Some k1) ((r1 + r2) div 2 + 1) c1 r2 ((c1 + c2) div 2) = k1"
        "update_n P t (Some k2) r1 ((c1 + c2) div 2 + 1) ((r1 + r2) div 2) c2 = k2"
        "update_n P t (Some k3) ((r1 + r2) div 2 + 1) ((c1 + c2) div 2 + 1) r2 c2 = k3"
        using ih by (simp_all add: n2_def k0_def k1_def k2_def k3_def)
      have "update_n P t (Some ?U) r1 c1 r2 c2 =
            Node J (ndelta n2) False (Some k0) (Some k1) (Some k2) (Some k3)"
        by (simp add: update_n_partial [OF out False, of P "Some _"] idle Let_def)
           (simp add: U again J_def)
      then show ?thesis by (simp add: U)
    qed
  qed
qed

lemma update_delta_d_members:
  "init t = init t' \<Longrightarrow> indet t = indet t' \<Longrightarrow>
   update_delta_d P t n d a = update_delta_d P t' n d a"
  by (simp add: update_delta_d_def split: option.split)

lemma update_delta_members:
  "init t = init t' \<Longrightarrow> indet t = indet t' \<Longrightarrow> delta t = delta t' \<Longrightarrow>
   update_delta P t m r1 c1 r2 c2 = update_delta P t' m r1 c1 r2 c2"
  by (cases m) (simp add: update_delta_def Let_def update_delta_d_members [of t t'])

lemma arrive_members:
  "init t = init t' \<Longrightarrow> indet t = indet t' \<Longrightarrow> delta t = delta t' \<Longrightarrow>
   arrive P t n r1 c1 r2 c2 = arrive P t' n r1 c1 r2 c2"
  by (cases n) (simp_all add: arrive_def update_delta_members [of t t'])

lemma update_n_members:
  assumes "init t = init t'" "indet t = indet t'" "delta t = delta t'"
    "tgt_r1 t = tgt_r1 t'" "tgt_c1 t = tgt_c1 t'" "tgt_r2 t = tgt_r2 t'" "tgt_c2 t = tgt_c2 t'"
  shows "update_n P t n r1 c1 r2 c2 = update_n P t' n r1 c1 r2 c2"
  using assms
proof (induction P t n r1 c1 r2 c2 rule: update_n_induct)
  case (descent P t n r1 c1 r2 c2)
  have o: "outside t' r1 c1 r2 c2 = outside t r1 c1 r2 c2"
    and i: "inside t' r1 c1 r2 c2 = inside t r1 c1 r2 c2"
    using descent.prems by (simp_all add: outside_def inside_def)
  have a: "arrive P t' n r1 c1 r2 c2 = arrive P t n r1 c1 r2 c2"
    using descent.prems by (simp add: arrive_members [of t t'])
  have d: "update_delta P t' m r1 c1 r2 c2 = update_delta P t m r1 c1 r2 c2" for m
    using descent.prems by (simp add: update_delta_members [of t t'])
  show ?case
  proof (cases "outside t r1 c1 r2 c2")
    case True
    then show ?thesis by (simp add: update_n_outside o a)
  next
    case out: False
    show ?thesis
    proof (cases "inside t r1 c1 r2 c2")
      case True
      with out show ?thesis by (simp add: update_n_inside o i a d)
    next
      case False
      note ih = descent.IH(1) [OF out False descent.prems] descent.IH(2) [OF out False descent.prems]
                descent.IH(3) [OF out False descent.prems] descent.IH(4) [OF out False descent.prems]
      from out False show ?thesis
        by (simp add: update_n_partial o i a Let_def ih)
    qed
  qed
qed

lemma update_twice:
  assumes "\<And>v d a. join_value_with_delta P v d a = d" and "\<And>a b. join_deltas P a b = b"
  shows "update P r1 c1 r2 c2 d (update P r1 c1 r2 c2 d t) = update P r1 c1 r2 c2 d t"
proof -
  define t1 where "t1 = t\<lparr>tgt_r1 := r1, tgt_c1 := c1, tgt_r2 := r2, tgt_c2 := c2, delta := d\<rparr>"
  define U where "U = update_n P t1 (root t1) 0 0 MAXR MAXC"
  have once: "update P r1 c1 r2 c2 d t = t1\<lparr>root := Some U\<rparr>"
    by (simp add: update_def t1_def U_def Let_def)
  define s1 where
    "s1 = (t1\<lparr>root := Some U\<rparr>)\<lparr>tgt_r1 := r1, tgt_c1 := c1, tgt_r2 := r2, tgt_c2 := c2, delta := d\<rparr>"
  have s1: "s1 = t1\<lparr>root := Some U\<rparr>"
    by (simp add: s1_def t1_def)
  have "update_n P s1 (root s1) 0 0 MAXR MAXC = update_n P t1 (Some U) 0 0 MAXR MAXC"
    by (simp add: s1 update_n_members [of "t1\<lparr>root := Some U\<rparr>" t1])
  also have "\<dots> = U"
    unfolding U_def by (rule update_n_again) (rule assms)+
  finally have "update P r1 c1 r2 c2 d (t1\<lparr>root := Some U\<rparr>) = s1\<lparr>root := Some U\<rparr>"
    unfolding update_def Let_def s1_def [symmetric] by simp
  then show ?thesis by (simp add: once s1)
qed

subsection \<open>The invariant of untouched regions\<close>

text \<open>
  The three readings of the invariant, and that \<^verbatim>\<open>update\<close> establishes it for one more
  rectangle.
\<close>

lemma clean_covered: "covered Ts r1 c1 r2 c2 \<Longrightarrow> clean Ts v m r1 c1 r2 c2"
  by (cases m) (simp add: covered_def clean.simps)

lemma clean_missed:
  "\<not> covered Ts r1 c1 r2 c2 \<Longrightarrow> missed Ts r1 c1 r2 c2 \<Longrightarrow>
   clean Ts v m r1 c1 r2 c2 \<longleftrightarrow>
     \<not> pending m \<and> nvalue m = v \<and>
     child0 m = None \<and> child1 m = None \<and> child2 m = None \<and> child3 m = None"
  by (cases m) (simp add: covered_def missed_def clean.simps)

lemma clean_partial:
  "\<not> covered Ts r1 c1 r2 c2 \<Longrightarrow> \<not> missed Ts r1 c1 r2 c2 \<Longrightarrow>
   clean Ts v m r1 c1 r2 c2 \<longleftrightarrow>
     \<not> pending m \<and>
     clean_opt Ts v (child0 m) r1 c1 ((r1 + r2) div 2) ((c1 + c2) div 2) \<and>
     clean_opt Ts v (child1 m) ((r1 + r2) div 2 + 1) c1 r2 ((c1 + c2) div 2) \<and>
     clean_opt Ts v (child2 m) r1 ((c1 + c2) div 2 + 1) ((r1 + r2) div 2) c2 \<and>
     clean_opt Ts v (child3 m) ((r1 + r2) div 2 + 1) ((c1 + c2) div 2 + 1) r2 c2"
  by (cases m) (simp add: covered_def missed_def clean_opt_def Let_def clean.simps)

lemma clean_not_pending:
  "\<not> covered Ts r1 c1 r2 c2 \<Longrightarrow> clean Ts v m r1 c1 r2 c2 \<Longrightarrow> \<not> pending m"
  by (cases "missed Ts r1 c1 r2 c2") (simp_all add: clean_missed clean_partial)

lemma clean_children:
  assumes "\<not> covered Ts r1 c1 r2 c2" and "clean Ts v m r1 c1 r2 c2"
  shows "clean_opt Ts v (child0 m) r1 c1 ((r1 + r2) div 2) ((c1 + c2) div 2)"
    and "clean_opt Ts v (child1 m) ((r1 + r2) div 2 + 1) c1 r2 ((c1 + c2) div 2)"
    and "clean_opt Ts v (child2 m) r1 ((c1 + c2) div 2 + 1) ((r1 + r2) div 2) c2"
    and "clean_opt Ts v (child3 m) ((r1 + r2) div 2 + 1) ((c1 + c2) div 2 + 1) r2 c2"
  using assms
  by (cases "missed Ts r1 c1 r2 c2"; simp add: clean_missed clean_partial clean_opt_def)+

lemma covered_Cons:
  "covered (T # Ts) r1 c1 r2 c2 \<longleftrightarrow>
     covers T r1 c1 r2 c2 \<and> \<not> misses T r1 c1 r2 c2 \<or> covered Ts r1 c1 r2 c2"
  by (simp add: covered_def)

lemma missed_Cons:
  "missed (T # Ts) r1 c1 r2 c2 \<longleftrightarrow> misses T r1 c1 r2 c2 \<and> missed Ts r1 c1 r2 c2"
  by (simp add: missed_def)

lemma clean_Cons: "clean Ts v m r1 c1 r2 c2 \<Longrightarrow> clean (T # Ts) v m r1 c1 r2 c2"
proof (induction Ts v m r1 c1 r2 c2 rule: clean.induct)
  case (1 Ts v x dl p k0 k1 k2 k3 r1 c1 r2 c2)
  let ?m = "Node x dl p k0 k1 k2 k3"
  show ?case
  proof (cases "covered (T # Ts) r1 c1 r2 c2")
    case True
    then show ?thesis by (rule clean_covered)
  next
    case nc': False
    then have nc: "\<not> covered Ts r1 c1 r2 c2" by (simp add: covered_Cons)
    show ?thesis
    proof (cases "missed Ts r1 c1 r2 c2")
      case True
      with nc "1.prems" have "\<not> p \<and> x = v \<and> k0 = None \<and> k1 = None \<and> k2 = None \<and> k3 = None"
        by (simp add: clean_missed)
      then show ?thesis
        by (cases "missed (T # Ts) r1 c1 r2 c2")
           (simp_all add: clean_missed [OF nc'] clean_partial [OF nc'] clean_opt_def)
    next
      case False
      then have nm': "\<not> missed (T # Ts) r1 c1 r2 c2" by (simp add: missed_Cons)
      note ih = "1.IH" [OF nc [unfolded covered_def] False [unfolded missed_def] refl refl]
      from nc False "1.prems" have
        "\<not> p"
        "clean_opt Ts v k0 r1 c1 ((r1 + r2) div 2) ((c1 + c2) div 2)"
        "clean_opt Ts v k1 ((r1 + r2) div 2 + 1) c1 r2 ((c1 + c2) div 2)"
        "clean_opt Ts v k2 r1 ((c1 + c2) div 2 + 1) ((r1 + r2) div 2) c2"
        "clean_opt Ts v k3 ((r1 + r2) div 2 + 1) ((c1 + c2) div 2 + 1) r2 c2"
        by (simp_all add: clean_partial)
      then show ?thesis
        using ih by (simp add: clean_partial [OF nc' nm'] clean_opt_def split: option.splits)
    qed
  qed
qed

lemma clean_opt_Cons: "clean_opt Ts v n r1 c1 r2 c2 \<Longrightarrow> clean_opt (T # Ts) v n r1 c1 r2 c2"
  by (simp add: clean_opt_def clean_Cons split: option.splits)

lemma outside_misses: "outside t r1 c1 r2 c2 = misses (target t) r1 c1 r2 c2"
  by (simp add: outside_def misses_def target_def)

lemma inside_covers: "inside t r1 c1 r2 c2 = covers (target t) r1 c1 r2 c2"
  by (simp add: inside_def covers_def target_def)

lemma clean_new_node:
  "\<not> covered Ts r1 c1 r2 c2 \<Longrightarrow> clean Ts v (new_node u v) r1 c1 r2 c2"
  by (simp add: new_node_def covered_def clean.simps)

lemma pending_new_node: "\<not> pending (new_node u v)"
  by (simp add: new_node_def)

lemma arrive_clean:
  assumes jr: "\<And>a. join_region P (init t) a = init t"
    and nc: "\<not> covered Ts r1 c1 r2 c2"
    and n: "clean_opt Ts (init t) n r1 c1 r2 c2"
  shows "clean Ts (init t) (arrive P t n r1 c1 r2 c2) r1 c1 r2 c2"
proof (cases n)
  case None
  then show ?thesis
    using nc by (simp add: arrive_def jr update_delta_idle pending_new_node clean_new_node)
next
  case (Some m)
  with n nc have "\<not> pending m" and "clean Ts (init t) m r1 c1 r2 c2"
    by (auto simp: clean_opt_def dest: clean_not_pending)
  with Some show ?thesis by (simp add: arrive_idle)
qed

lemma update_n_clean:
  assumes "\<And>a. join_region P (init t) a = init t"
    and "clean_opt Ts (init t) n r1 c1 r2 c2"
  shows "clean (target t # Ts) (init t) (update_n P t n r1 c1 r2 c2) r1 c1 r2 c2"
  using assms
proof (induction P t n r1 c1 r2 c2 rule: update_n_induct)
  case (descent P t n r1 c1 r2 c2)
  let ?Ts' = "target t # Ts"
  show ?case
  proof (cases "covered ?Ts' r1 c1 r2 c2")
    case True
    then show ?thesis by (rule clean_covered)
  next
    case nc': False
    then have nc: "\<not> covered Ts r1 c1 r2 c2"
      and io: "inside t r1 c1 r2 c2 \<Longrightarrow> outside t r1 c1 r2 c2"
      by (simp_all add: covered_Cons inside_covers outside_misses)
    have n2: "clean Ts (init t) (arrive P t n r1 c1 r2 c2) r1 c1 r2 c2"
      using descent.prems nc by (intro arrive_clean)
    show ?thesis
    proof (cases "outside t r1 c1 r2 c2")
      case True
      then show ?thesis using n2 by (simp add: update_n_outside clean_Cons)
    next
      case out: False
      with io have nin: "\<not> inside t r1 c1 r2 c2" by blast
      have nm': "\<not> missed ?Ts' r1 c1 r2 c2"
        using out by (simp add: missed_Cons outside_misses)
      note kids = clean_children [OF nc n2]
      note ih = descent.IH(1) [OF out nin descent.prems(1) kids(1)]
                descent.IH(2) [OF out nin descent.prems(1) kids(2)]
                descent.IH(3) [OF out nin descent.prems(1) kids(3)]
                descent.IH(4) [OF out nin descent.prems(1) kids(4)]
      show ?thesis
        using ih by (simp add: update_n_partial [OF out nin] Let_def clean_partial [OF nc' nm'] clean_opt_def)
    qed
  qed
qed

subsection \<open>The cases of query\<close>

text \<open>
  The private \<^verbatim>\<open>query\<close> case by case, its induction rule, the members it leaves
  alone, and what it collects on a tree that satisfies the invariant.
\<close>

lemma query_n_outside:
  "outside t r1 c1 r2 c2 \<Longrightarrow> query_n P t n r1 c1 r2 c2 = (n, t)"
  by (subst query_n.simps) simp

lemma query_n_absent:
  "\<not> outside t r1 c1 r2 c2 \<Longrightarrow>
   query_n P t None r1 c1 r2 c2 =
     (None, contribute P (join_region P (init t)
        (int_mul (min r2 (tgt_r2 t) - max r1 (tgt_r1 t) + 1)
                 (min c2 (tgt_c2 t) - max c1 (tgt_c1 t) + 1))) t)"
  by (subst query_n.simps) (simp add: Let_def)

lemma query_n_inside:
  "\<not> outside t r1 c1 r2 c2 \<Longrightarrow> inside t r1 c1 r2 c2 \<Longrightarrow>
   query_n P t (Some m) r1 c1 r2 c2 =
     (Some (update_delta P t m r1 c1 r2 c2),
      contribute P (nvalue (update_delta P t m r1 c1 r2 c2)) t)"
  by (subst query_n.simps) (simp add: Let_def)

lemma query_n_partial:
  "\<not> outside t r1 c1 r2 c2 \<Longrightarrow> \<not> inside t r1 c1 r2 c2 \<Longrightarrow>
   query_n P t (Some m) r1 c1 r2 c2 =
     (let n2 = update_delta P t m r1 c1 r2 c2;
          rmid = (r1 + r2) div 2; cmid = (c1 + c2) div 2;
          q0 = query_n P t (child0 n2) r1 c1 rmid cmid;
          q1 = query_n P (snd q0) (child1 n2) (rmid + 1) c1 r2 cmid;
          q2 = query_n P (snd q1) (child2 n2) r1 (cmid + 1) rmid c2;
          q3 = query_n P (snd q2) (child3 n2) (rmid + 1) (cmid + 1) r2 c2
      in (Some (Node (nvalue n2) (ndelta n2) (pending n2) (fst q0) (fst q1) (fst q2) (fst q3)),
          snd q3))"
  by (subst query_n.simps) (simp add: Let_def case_prod_beta)

lemma query_n_induct [case_names descent]:
  assumes "\<And>P t n r1 c1 r2 c2.
     (\<And>m. n = Some m \<Longrightarrow> \<not> outside t r1 c1 r2 c2 \<Longrightarrow> \<not> inside t r1 c1 r2 c2 \<Longrightarrow>
        Q P t (child0 (update_delta P t m r1 c1 r2 c2)) r1 c1 ((r1 + r2) div 2) ((c1 + c2) div 2)) \<Longrightarrow>
     (\<And>m q0. n = Some m \<Longrightarrow> \<not> outside t r1 c1 r2 c2 \<Longrightarrow> \<not> inside t r1 c1 r2 c2 \<Longrightarrow>
        q0 = query_n P t (child0 (update_delta P t m r1 c1 r2 c2)) r1 c1
               ((r1 + r2) div 2) ((c1 + c2) div 2) \<Longrightarrow>
        Q P (snd q0) (child1 (update_delta P t m r1 c1 r2 c2))
          ((r1 + r2) div 2 + 1) c1 r2 ((c1 + c2) div 2)) \<Longrightarrow>
     (\<And>m q0 q1. n = Some m \<Longrightarrow> \<not> outside t r1 c1 r2 c2 \<Longrightarrow> \<not> inside t r1 c1 r2 c2 \<Longrightarrow>
        q0 = query_n P t (child0 (update_delta P t m r1 c1 r2 c2)) r1 c1
               ((r1 + r2) div 2) ((c1 + c2) div 2) \<Longrightarrow>
        q1 = query_n P (snd q0) (child1 (update_delta P t m r1 c1 r2 c2))
               ((r1 + r2) div 2 + 1) c1 r2 ((c1 + c2) div 2) \<Longrightarrow>
        Q P (snd q1) (child2 (update_delta P t m r1 c1 r2 c2))
          r1 ((c1 + c2) div 2 + 1) ((r1 + r2) div 2) c2) \<Longrightarrow>
     (\<And>m q0 q1 q2. n = Some m \<Longrightarrow> \<not> outside t r1 c1 r2 c2 \<Longrightarrow> \<not> inside t r1 c1 r2 c2 \<Longrightarrow>
        q0 = query_n P t (child0 (update_delta P t m r1 c1 r2 c2)) r1 c1
               ((r1 + r2) div 2) ((c1 + c2) div 2) \<Longrightarrow>
        q1 = query_n P (snd q0) (child1 (update_delta P t m r1 c1 r2 c2))
               ((r1 + r2) div 2 + 1) c1 r2 ((c1 + c2) div 2) \<Longrightarrow>
        q2 = query_n P (snd q1) (child2 (update_delta P t m r1 c1 r2 c2))
               r1 ((c1 + c2) div 2 + 1) ((r1 + r2) div 2) c2 \<Longrightarrow>
        Q P (snd q2) (child3 (update_delta P t m r1 c1 r2 c2))
          ((r1 + r2) div 2 + 1) ((c1 + c2) div 2 + 1) r2 c2) \<Longrightarrow>
     Q P t n r1 c1 r2 c2"
  shows "Q P t n r1 c1 r2 c2"
proof (induction P t n r1 c1 r2 c2 rule: query_n.induct)
  case (1 P t n r1 c1 r2 c2)
  show ?case
  proof (rule assms, goal_cases)
    case (1 m)
    show ?case
      by (rule "1.IH"(1) [OF 1(2) 1(1) refl 1(3) refl refl])
  next
    case (2 m q0)
    show ?case
      unfolding 2(4)
      by (rule "1.IH"(2) [OF 2(2) 2(1) refl 2(3) refl refl refl prod.collapse])
  next
    case (3 m q0 q1)
    show ?case
      unfolding 3(5) 3(4)
      by (rule "1.IH"(3) [OF 3(2) 3(1) refl 3(3) refl refl refl prod.collapse
                             refl prod.collapse])
  next
    case (4 m q0 q1 q2)
    show ?case
      unfolding 4(6) 4(5) 4(4)
      by (rule "1.IH"(4) [OF 4(2) 4(1) refl 4(3) refl refl refl prod.collapse
                             refl prod.collapse refl prod.collapse])
  qed
qed

lemma covered_meets:
  assumes "proper T" "proper R" "covers T r1 c1 r2 c2" "\<not> misses T r1 c1 r2 c2"
    "\<not> misses R r1 c1 r2 c2"
  shows "\<not> apart T R"
  using assms by (cases T; cases R) (auto simp: proper_def covers_def misses_def apart_def)

lemma apart_misses:
  assumes "proper T" "proper R" "covers R r1 c1 r2 c2" "\<not> misses R r1 c1 r2 c2" "apart T R"
  shows "misses T r1 c1 r2 c2"
  using assms by (cases T; cases R) (auto simp: proper_def covers_def misses_def apart_def)

lemma query_n_members:
  "\<exists>r f. snd (query_n P t n r1 c1 r2 c2) = t\<lparr>res := r, found := f\<rparr>"
proof (induction P t n r1 c1 r2 c2 rule: query_n_induct)
  case (descent P t n r1 c1 r2 c2)
  have same: "\<exists>r f. t = t\<lparr>res := r, found := f\<rparr>"
    by (rule exI [of _ "res t"], rule exI [of _ "found t"]) simp
  show ?case
  proof (cases "outside t r1 c1 r2 c2")
    case True
    then show ?thesis using same by (simp add: query_n_outside)
  next
    case out: False
    show ?thesis
    proof (cases n)
      case None
      with out show ?thesis by (auto simp: query_n_absent contribute_def)
    next
      case (Some m)
      show ?thesis
      proof (cases "inside t r1 c1 r2 c2")
        case True
        with out Some show ?thesis by (auto simp: query_n_inside contribute_def)
      next
        case False
        define n2 where "n2 = update_delta P t m r1 c1 r2 c2"
        define q0 where "q0 = query_n P t (child0 n2) r1 c1 ((r1 + r2) div 2) ((c1 + c2) div 2)"
        define q1 where
          "q1 = query_n P (snd q0) (child1 n2) ((r1 + r2) div 2 + 1) c1 r2 ((c1 + c2) div 2)"
        define q2 where
          "q2 = query_n P (snd q1) (child2 n2) r1 ((c1 + c2) div 2 + 1) ((r1 + r2) div 2) c2"
        define q3 where
          "q3 = query_n P (snd q2) (child3 n2) ((r1 + r2) div 2 + 1) ((c1 + c2) div 2 + 1) r2 c2"
        from descent.IH(1) [OF Some out False]
        obtain ra fa where a: "snd q0 = t\<lparr>res := ra, found := fa\<rparr>"
          unfolding q0_def n2_def by blast
        from descent.IH(2) [OF Some out False refl]
        obtain rb fb where b: "snd q1 = t\<lparr>res := rb, found := fb\<rparr>"
          unfolding q1_def q0_def n2_def a [unfolded q0_def n2_def] by auto
        from descent.IH(3) [OF Some out False refl refl]
        obtain rc fc where c: "snd q2 = t\<lparr>res := rc, found := fc\<rparr>"
          unfolding q2_def q1_def q0_def n2_def b [unfolded q1_def q0_def n2_def] by auto
        from descent.IH(4) [OF Some out False refl refl refl]
        obtain rd fd where d: "snd q3 = t\<lparr>res := rd, found := fd\<rparr>"
          unfolding q3_def q2_def q1_def q0_def n2_def c [unfolded q2_def q1_def q0_def n2_def]
          by auto
        have "snd (query_n P t n r1 c1 r2 c2) = snd q3"
          using out False
          by (simp add: Some query_n_partial Let_def q3_def q2_def q1_def q0_def n2_def)
        with d show ?thesis by auto
      qed
    qed
  qed
qed

lemma query_n_keeps:
  "init (snd (query_n P t n r1 c1 r2 c2)) = init t"
  "target (snd (query_n P t n r1 c1 r2 c2)) = target t"
  "outside (snd (query_n P t n r1 c1 r2 c2)) a b c d = outside t a b c d"
  "inside (snd (query_n P t n r1 c1 r2 c2)) a b c d = inside t a b c d"
  "update_delta P (snd (query_n P t n r1 c1 r2 c2)) m a b c d = update_delta P t m a b c d"
proof -
  from query_n_members [of P t n r1 c1 r2 c2]
  obtain r f where "snd (query_n P t n r1 c1 r2 c2) = t\<lparr>res := r, found := f\<rparr>"
    by (elim exE)
  then show
    "init (snd (query_n P t n r1 c1 r2 c2)) = init t"
    "target (snd (query_n P t n r1 c1 r2 c2)) = target t"
    "outside (snd (query_n P t n r1 c1 r2 c2)) a b c d = outside t a b c d"
    "inside (snd (query_n P t n r1 c1 r2 c2)) a b c d = inside t a b c d"
    "update_delta P (snd (query_n P t n r1 c1 r2 c2)) m a b c d = update_delta P t m a b c d"
    by (simp_all add: target_def outside_def inside_def
          update_delta_members [of "t\<lparr>res := r, found := f\<rparr>" t])
qed

lemma fst_query_n_absent: "fst (query_n P t None r1 c1 r2 c2) = None"
  by (cases "outside t r1 c1 r2 c2") (simp_all add: query_n_outside query_n_absent)

lemma query_n_clean:
  "clean_opt Ts v n r1 c1 r2 c2 \<Longrightarrow> clean_opt Ts v (fst (query_n P t n r1 c1 r2 c2)) r1 c1 r2 c2"
proof (induction P t n r1 c1 r2 c2 rule: query_n_induct)
  case (descent P t n r1 c1 r2 c2)
  show ?case
  proof (cases "outside t r1 c1 r2 c2")
    case True
    then show ?thesis using descent.prems by (simp add: query_n_outside)
  next
    case out: False
    show ?thesis
    proof (cases n)
      case None
      then show ?thesis by (simp add: fst_query_n_absent clean_opt_def)
    next
      case (Some m)
      show ?thesis
      proof (cases "covered Ts r1 c1 r2 c2")
        case True
        then show ?thesis
          using out
          by (cases "inside t r1 c1 r2 c2")
             (simp_all add: Some query_n_inside query_n_partial Let_def clean_opt_def
                clean_covered)
      next
        case nc: False
        from descent.prems Some have m: "clean Ts v m r1 c1 r2 c2"
          by (simp add: clean_opt_def)
        with nc have idle: "update_delta P t m r1 c1 r2 c2 = m"
          by (intro update_delta_idle) (rule clean_not_pending)
        show ?thesis
        proof (cases "inside t r1 c1 r2 c2")
          case True
          with out m show ?thesis by (simp add: Some query_n_inside idle clean_opt_def)
        next
          case False
          define q0 where "q0 = query_n P t (child0 m) r1 c1 ((r1 + r2) div 2) ((c1 + c2) div 2)"
          define q1 where
            "q1 = query_n P (snd q0) (child1 m) ((r1 + r2) div 2 + 1) c1 r2 ((c1 + c2) div 2)"
          define q2 where
            "q2 = query_n P (snd q1) (child2 m) r1 ((c1 + c2) div 2 + 1) ((r1 + r2) div 2) c2"
          define q3 where
            "q3 = query_n P (snd q2) (child3 m) ((r1 + r2) div 2 + 1) ((c1 + c2) div 2 + 1) r2 c2"
          have q: "fst (query_n P t n r1 c1 r2 c2) =
                   Some (Node (nvalue m) (ndelta m) (pending m) (fst q0) (fst q1) (fst q2) (fst q3))"
            using out False
            by (simp add: Some query_n_partial Let_def idle q0_def q1_def q2_def q3_def)
          note kids = clean_children [OF nc m]
          have k0: "clean_opt Ts v (fst q0) r1 c1 ((r1 + r2) div 2) ((c1 + c2) div 2)"
            using descent.IH(1) [OF Some out False] kids(1) by (simp add: idle q0_def)
          have k1: "clean_opt Ts v (fst q1) ((r1 + r2) div 2 + 1) c1 r2 ((c1 + c2) div 2)"
            using descent.IH(2) [OF Some out False refl] kids(2) by (simp add: idle q0_def q1_def)
          have k2: "clean_opt Ts v (fst q2) r1 ((c1 + c2) div 2 + 1) ((r1 + r2) div 2) c2"
            using descent.IH(3) [OF Some out False refl refl] kids(3)
            by (simp add: idle q0_def q1_def q2_def)
          have k3: "clean_opt Ts v (fst q3) ((r1 + r2) div 2 + 1) ((c1 + c2) div 2 + 1) r2 c2"
            using descent.IH(4) [OF Some out False refl refl refl] kids(4)
            by (simp add: idle q0_def q1_def q2_def q3_def)
          show ?thesis
          proof (cases "missed Ts r1 c1 r2 c2")
            case True
            with nc m have "child0 m = None" "child1 m = None" "child2 m = None" "child3 m = None"
              "\<not> pending m" "nvalue m = v"
              by (simp_all add: clean_missed)
            then show ?thesis
              using nc True
              by (simp add: q clean_opt_def clean_missed q0_def q1_def q2_def q3_def
                    fst_query_n_absent)
          next
            case False
            with nc m have "\<not> pending m" by (simp add: clean_partial)
            then show ?thesis
              using nc False k0 k1 k2 k3 by (simp add: q clean_opt_def clean_partial)
          qed
        qed
      qed
    qed
  qed
qed

lemma settled_contribute:
  "join_values P v v = v \<Longrightarrow> settled v t \<Longrightarrow> settled v (contribute P v t)"
  by (auto simp: settled_def contribute_def)

lemma query_n_settled:
  assumes "\<And>a. join_region P v a = v" and "join_values P v v = v"
    and "init t = v" and "proper (target t)"
    and "list_all (\<lambda>T. proper T \<and> apart T (target t)) Ts"
    and "clean_opt Ts v n r1 c1 r2 c2" and "settled v t"
  shows "settled v (snd (query_n P t n r1 c1 r2 c2))"
  using assms
proof (induction P t n r1 c1 r2 c2 rule: query_n_induct)
  case (descent P t n r1 c1 r2 c2)
  note jr = descent.prems(1) and jv = descent.prems(2) and init = descent.prems(3)
    and pr = descent.prems(4) and Ts = descent.prems(5) and cl = descent.prems(6)
    and st = descent.prems(7)
  show ?case
  proof (cases "outside t r1 c1 r2 c2")
    case True
    then show ?thesis using st by (simp add: query_n_outside)
  next
    case out: False
    then have hit: "\<not> misses (target t) r1 c1 r2 c2" by (simp add: outside_misses)
    show ?thesis
    proof (cases n)
      case None
      with out show ?thesis
        using st jv by (simp add: query_n_absent init jr settled_contribute)
    next
      case (Some m)
      from cl Some have m: "clean Ts v m r1 c1 r2 c2" by (simp add: clean_opt_def)
      have nc: "\<not> covered Ts r1 c1 r2 c2"
      proof
        assume "covered Ts r1 c1 r2 c2"
        then obtain T where "T \<in> set Ts" "covers T r1 c1 r2 c2" "\<not> misses T r1 c1 r2 c2"
          by (auto simp: covered_def list_ex_iff)
        moreover from this Ts have "proper T" "apart T (target t)"
          by (auto simp: list_all_iff)
        ultimately show False using covered_meets [OF _ pr _ _ hit] by blast
      qed
      with m have idle: "update_delta P t m r1 c1 r2 c2 = m"
        by (intro update_delta_idle) (rule clean_not_pending)
      show ?thesis
      proof (cases "inside t r1 c1 r2 c2")
        case True
        have "missed Ts r1 c1 r2 c2"
          unfolding missed_def list_all_iff
        proof
          fix T assume "T \<in> set Ts"
          with Ts have "proper T" "apart T (target t)" by (auto simp: list_all_iff)
          then show "misses T r1 c1 r2 c2"
            using apart_misses [OF _ pr _ hit] True by (simp add: inside_covers)
        qed
        with nc m have "nvalue m = v" by (simp add: clean_missed)
        with out True show ?thesis
          using st jv by (simp add: Some query_n_inside idle settled_contribute)
      next
        case False
        define q0 where "q0 = query_n P t (child0 m) r1 c1 ((r1 + r2) div 2) ((c1 + c2) div 2)"
        define q1 where
          "q1 = query_n P (snd q0) (child1 m) ((r1 + r2) div 2 + 1) c1 r2 ((c1 + c2) div 2)"
        define q2 where
          "q2 = query_n P (snd q1) (child2 m) r1 ((c1 + c2) div 2 + 1) ((r1 + r2) div 2) c2"
        define q3 where
          "q3 = query_n P (snd q2) (child3 m) ((r1 + r2) div 2 + 1) ((c1 + c2) div 2 + 1) r2 c2"
        have q: "snd (query_n P t n r1 c1 r2 c2) = snd q3"
          using out False
          by (simp add: Some query_n_partial Let_def idle q0_def q1_def q2_def q3_def)
        note kids = clean_children [OF nc m]
        have s0: "settled v (snd q0)"
          using descent.IH(1) [OF Some out False jr jv init pr Ts] kids(1) st
          by (simp add: idle q0_def)
        have s1: "settled v (snd q1)"
          using descent.IH(2) [OF Some out False refl jr jv] kids(2) s0 init pr Ts
          by (simp add: idle q0_def q1_def query_n_keeps)
        have s2: "settled v (snd q2)"
          using descent.IH(3) [OF Some out False refl refl jr jv] kids(3) s1 init pr Ts
          by (simp add: idle q0_def q1_def q2_def query_n_keeps)
        have s3: "settled v (snd q3)"
          using descent.IH(4) [OF Some out False refl refl refl jr jv] kids(4) s2 init pr Ts
          by (simp add: idle q0_def q1_def q2_def q3_def query_n_keeps)
        then show ?thesis by (simp add: q)
      qed
    qed
  qed
qed

subsection \<open>The invariant along a sequence of calls\<close>

text \<open>
  Every public call keeps the invariant, for the rectangles updated so far.
\<close>

lemma tidy_update:
  assumes "\<And>a. join_region P v a = v" and "tidy Ts v t"
  shows "tidy ((r1, c1, r2, c2) # Ts) v (update P r1 c1 r2 c2 d t)"
proof -
  define t1 where "t1 = t\<lparr>tgt_r1 := r1, tgt_c1 := c1, tgt_r2 := r2, tgt_c2 := c2, delta := d\<rparr>"
  have t1: "init t1 = v" "target t1 = (r1, c1, r2, c2)" "root t1 = root t"
    using assms(2) by (simp_all add: t1_def tidy_def target_def)
  have "clean (target t1 # Ts) (init t1) (update_n P t1 (root t1) 0 0 MAXR MAXC) 0 0 MAXR MAXC"
    using assms by (intro update_n_clean) (simp_all add: t1 tidy_def)
  then show ?thesis
    by (simp add: update_def Let_def t1_def [symmetric] tidy_def t1 clean_opt_def)
qed

lemma query_unfold:
  "query P r1 c1 r2 c2 t =
     (let t1 = t\<lparr>tgt_r1 := r1, tgt_c1 := c1, tgt_r2 := r2, tgt_c2 := c2, found := False\<rparr>;
          q = query_n P t1 (root t1) 0 0 MAXR MAXC
      in ((if found (snd q) then res (snd q)
           else join_region P (init (snd q)) (int_mul (r2 - r1 + 1) (c2 - c1 + 1))),
          (snd q)\<lparr>root := fst q\<rparr>))"
  by (simp add: query_def Let_def case_prod_beta)

lemma tidy_query:
  assumes "tidy Ts v t"
  shows "tidy Ts v (snd (query P r1 c1 r2 c2 t))"
proof -
  define t1 where "t1 = t\<lparr>tgt_r1 := r1, tgt_c1 := c1, tgt_r2 := r2, tgt_c2 := c2, found := False\<rparr>"
  have t1: "init t1 = v" "root t1 = root t"
    using assms by (simp_all add: t1_def tidy_def)
  have "clean_opt Ts v (fst (query_n P t1 (root t1) 0 0 MAXR MAXC)) 0 0 MAXR MAXC"
    using assms by (intro query_n_clean) (simp add: t1 tidy_def)
  then show ?thesis
    by (simp add: query_unfold Let_def t1_def [symmetric] tidy_def query_n_keeps t1)
qed

lemma query_untouched:
  assumes "\<And>a. join_region P v a = v" and "join_values P v v = v"
    and "tidy Ts v t" and "r1 \<le> r2" and "c1 \<le> c2"
    and "list_all (\<lambda>T. proper T \<and> apart T (r1, c1, r2, c2)) Ts"
  shows "fst (query P r1 c1 r2 c2 t) = v"
proof -
  define t1 where "t1 = t\<lparr>tgt_r1 := r1, tgt_c1 := c1, tgt_r2 := r2, tgt_c2 := c2, found := False\<rparr>"
  have t1: "init t1 = v" "root t1 = root t" "target t1 = (r1, c1, r2, c2)" "\<not> found t1"
    using assms(3) by (simp_all add: t1_def tidy_def target_def)
  have "settled v (snd (query_n P t1 (root t1) 0 0 MAXR MAXC))"
  proof (rule query_n_settled [where Ts = Ts])
    show "join_region P v a = v" for a by (rule assms(1))
    show "join_values P v v = v" by (rule assms(2))
    show "init t1 = v" by (rule t1)
    show "proper (target t1)" using assms(4,5) by (simp add: t1 proper_def)
    show "list_all (\<lambda>T. proper T \<and> apart T (target t1)) Ts" using assms(6) by (simp add: t1)
    show "clean_opt Ts v (root t1) 0 0 MAXR MAXC" using assms(3) by (simp add: t1 tidy_def)
    show "settled v t1" by (simp add: settled_def t1)
  qed
  then show ?thesis
    using assms(1)
    by (auto simp add: query_unfold Let_def t1_def [symmetric] query_n_keeps t1 settled_def)
qed

lemma tidy_exec:
  assumes "\<And>a. join_region P v a = v"
  shows "tidy Ts v t \<Longrightarrow> tidy (rev (targets cs) @ Ts) v (snd (exec P cs t))"
proof (induction cs arbitrary: t Ts)
  case Nil
  then show ?case by simp
next
  case (Cons c cs)
  show ?case
  proof (cases c)
    case (Update r1 c1 r2 c2 d)
    with Cons.IH [OF tidy_update [OF assms Cons.prems, of r1 c1 r2 c2 d]]
    show ?thesis by simp
  next
    case (UpdateAt r c' d)
    with Cons.IH [OF tidy_update [OF assms Cons.prems, of r c' r c' d]]
    show ?thesis by (simp add: update_at_def)
  next
    case (Query r1 c1 r2 c2)
    with Cons.IH [OF tidy_query [OF Cons.prems, of P r1 c1 r2 c2]]
    show ?thesis by (simp add: case_prod_beta Let_def)
  next
    case (At r c')
    with Cons.IH [OF tidy_query [OF Cons.prems, of P r c' r c']]
    show ?thesis by (simp add: case_prod_beta Let_def at_def)
  qed
qed

lemma tidy_quadtree: "tidy [] v (quadtree v h)"
  by (simp add: tidy_def quadtree_def clean_opt_def)

lemma proper_targets:
  "list_all valid_call cs \<Longrightarrow> list_all proper (targets cs)"
  by (induction cs rule: targets.induct) (simp_all add: proper_def)

lemma untouched_general:
  assumes "\<And>a. join_region P v a = v" and "join_values P v v = v"
    and "list_all valid_call cs" and "valid_call (Query r1 c1 r2 c2)"
    and "list_all (\<lambda>T. apart T (r1, c1, r2, c2)) (targets cs)"
  shows "fst (query P r1 c1 r2 c2 (snd (exec P cs (quadtree v h)))) = v"
proof -
  have "tidy (rev (targets cs) @ []) v (snd (exec P cs (quadtree v h)))"
    using assms(1) tidy_quadtree by (rule tidy_exec)
  moreover have "list_all (\<lambda>T. proper T \<and> apart T (r1, c1, r2, c2)) (rev (targets cs) @ [])"
    using proper_targets [OF assms(3)] assms(5) by (auto simp: list_all_iff)
  ultimately show ?thesis
    using assms(1,2,4) by (intro query_untouched [where Ts = "rev (targets cs) @ []"]) simp_all
qed

lemma fresh_query:
  assumes "valid_call (Query r1 c1 r2 c2)"
  shows "fst (query P r1 c1 r2 c2 (quadtree v h)) =
         join_region P v (int_mul (r2 - r1 + 1) (c2 - c1 + 1))"
  using assms
  by (simp add: query_unfold Let_def quadtree_def query_n_absent outside_def contribute_def
        min_absorb2 max_absorb2)

section \<open>The claims\<close>

subsection \<open>Pushing a pending delta down\<close>

text \<open>
  C1. The claim is that a pending node is resolved with its own stored delta. The
  source resolves it with the member \<open>delta\<close> of the tree, the delta of the most
  recent update, and hands that one to the children: the first statement below,
  for every node, policy and rectangle. The second statement is an instance: a
  leaf that holds the pending delta \<open>5\<close>, resolved while the tree's \<open>delta\<close> is \<open>9\<close>,
  gets the value \<open>9\<close>.
\<close>

theorem resolve_takes_tree_delta:
  "nvalue (update_delta P t (Node v dl True k0 k1 k2 k3) r1 c1 r2 c2) =
     join_value_with_delta P v (delta t) (int_mul (r2 - r1 + 1) (c2 - c1 + 1)) \<and>
   update_delta default_policy (blank\<lparr>delta := 9\<rparr>) (Node 0 5 True None None None None) 0 0 0 0 =
     Node 9 5 False None None None None"
  by (simp add: update_delta_def Let_def default_policy_def blank_def int_mul_def)

subsection \<open>Locality\<close>

text \<open>
  C2. The claim is that an update over a rectangle does not change a query over a
  disjoint one. After \<open>update(0,0,1,1,5)\<close> the cell \<open>(0,0)\<close> reads \<open>5\<close>; with the update
  of the disjoint cell \<open>(7,7)\<close> to \<open>9\<close> in between, it reads \<open>9\<close>.
\<close>

theorem update_elsewhere_changes_query:
  "fst (exec default_policy [Update 0 0 1 1 5, At 0 0] (quadtree (0::int) h)) = [5] \<and>
   fst (exec default_policy [Update 0 0 1 1 5, Update 7 7 7 7 9, At 0 0] (quadtree (0::int) h)) =
     [9]"
proof (cases h)
  case (fields rt i a1 a2 a3 a4 rs dl fd u)
  show ?thesis
    unfolding fields by code_simp
qed

subsection \<open>The example of the source\<close>

text \<open>
  C3. On a tree constructed with \<open>init = 0\<close> and the functions of the source
  (minimum, set), the calls of \<^verbatim>\<open>main()\<close> read the grid \<open>7 6 9 / 0 4 9 / 9 9 9\<close> with
  \<open>at\<close>, then return \<open>6\<close>, \<open>0\<close>, \<open>4\<close> and \<open>0\<close> for the four queries, and \<open>-100\<close> for the
  query of the whole range after the last update; whatever the helper variables
  held at construction.
\<close>

theorem main_scenario:
  "fst (exec default_policy main_calls (quadtree 0 h)) =
     [7, 6, 9, 0, 4, 9, 9, 9, 9, 6, 0, 4, 0, - 100]"
proof (cases h)
  case (fields rt i a1 a2 a3 a4 rs dl fd u)
  show ?thesis
    unfolding fields by code_simp
qed

subsection \<open>Untouched regions\<close>

text \<open>
  C4. The claim is that a query over a rectangle none of whose cells was updated
  returns \<open>join_region(init, A)\<close>, \<open>A\<close> its area. With the sum policy of the header
  comment and \<open>init = 1\<close>, after \<open>update(0, 0, 0)\<close> the query of the cell \<open>(0, 1)\<close>,
  which is within the bounds and apart from the updated cell, returns \<open>2\<close>, where
  \<open>join_region(1, 1)\<close> is \<open>1\<close>: the node of that cell was created by \<^verbatim>\<open>update\<close> with
  the area \<open>(r2 - r1 + 1)*(c2 - r1 + 1)\<close>.
\<close>

theorem untouched_cell_misread:
  "fst (exec sum_policy [UpdateAt 0 0 0, Query 0 1 0 1] (quadtree 1 h)) = [2] \<and>
   join_region sum_policy 1 ((0 - 0 + 1) * (1 - 1 + 1)) = 1 \<and>
   list_all valid_call [UpdateAt 0 0 (0::int), Query 0 1 0 1] \<and>
   list_all (\<lambda>T. apart T (0, 1, 0, 1)) (targets [UpdateAt 0 0 (0::int)])"
proof (intro conjI)
  show "fst (exec sum_policy [UpdateAt 0 0 0, Query 0 1 0 1] (quadtree 1 h)) = [2]"
  proof (cases h)
    case (fields rt i a1 a2 a3 a4 rs dl fd u)
    show ?thesis
      unfolding fields by code_simp
  qed
  show "join_region sum_policy 1 ((0 - 0 + 1) * (1 - 1 + 1)) = 1"
    by (simp add: sum_policy_def)
  show "list_all valid_call [UpdateAt 0 0 (0::int), Query 0 1 0 1]"
    by (simp add: MAXR_def MAXC_def)
  show "list_all (\<lambda>T. apart T (0, 1, 0, 1)) (targets [UpdateAt 0 0 (0::int)])"
    by (simp add: apart_def misses_def)
qed

subsection \<open>Creation of a node by update\<close>

text \<open>
  C5. The claim is that the node which \<^verbatim>\<open>update\<close> creates for the rectangle
  \<open>[r1, r2] \<times> [c1, c2]\<close> gets the value \<open>join_region(init, (r2-r1+1)*(c2-c1+1))\<close>. The
  source passes \<open>(r2 - r1 + 1)*(c2 - r1 + 1)\<close>. For the rectangle of the single cell
  \<open>(0, 1)\<close>, outside the target \<open>(0, 0)\<close>, that is \<open>2\<close> instead of \<open>1\<close>: with the sum
  policy of the header comment and \<open>init = 1\<close> the node gets the value \<open>2\<close>, and the
  cell reads \<open>2\<close> after \<open>update(0, 0, 0)\<close>.
\<close>

theorem created_node_area:
  "update_n P (t\<lparr>tgt_r1 := 0, tgt_c1 := 0, tgt_r2 := 0, tgt_c2 := 0\<rparr>) None 0 1 0 1 =
     new_node (indet t) (join_region P (init t) 2) \<and>
   join_region sum_policy 1 ((0 - 0 + 1) * (1 - 1 + 1)) = 1 \<and>
   fst (exec sum_policy [UpdateAt 0 0 0, At 0 1] (quadtree 1 blank)) = [2]"
proof (intro conjI)
  show "update_n P (t\<lparr>tgt_r1 := 0, tgt_c1 := 0, tgt_r2 := 0, tgt_c2 := 0\<rparr>) None 0 1 0 1 =
     new_node (indet t) (join_region P (init t) 2)"
    by (simp add: update_n_outside outside_def arrive_def update_delta_idle pending_new_node
          int_mul_def)
  show "join_region sum_policy 1 ((0 - 0 + 1) * (1 - 1 + 1)) = 1"
    by (simp add: sum_policy_def)
  show "fst (exec sum_policy [UpdateAt 0 0 0, At 0 1] (quadtree 1 blank)) = [2]"
    by code_simp
qed

subsection \<open>Quadrants and their order\<close>




subsection \<open>Idempotence of updates that set\<close>

text \<open>
  C7. Under a policy whose \<open>join_value_with_delta\<close> returns the delta and whose
  \<open>join_deltas\<close> returns the more recent delta, as the functions of the source do,
  a rectangle update or a point update made twice in succession leaves the tree,
  helper variables included, as the first one left it; so every sequence of calls
  that follows returns the same results and ends in the same tree.
\<close>

theorem update_idempotent:
  assumes "join_value_with_delta P = (\<lambda>v d area. d)" and "join_deltas P = (\<lambda>d1 d2. d2)"
  shows "update P r1 c1 r2 c2 d (update P r1 c1 r2 c2 d t) = update P r1 c1 r2 c2 d t \<and>
         update_at P r c d (update_at P r c d t) = update_at P r c d t \<and>
         exec P cs (update P r1 c1 r2 c2 d (update P r1 c1 r2 c2 d t)) =
           exec P cs (update P r1 c1 r2 c2 d t)"
proof -
  have twice: "update P a b a' b' d (update P a b a' b' d t) = update P a b a' b' d t"
    for a b a' b'
    by (rule update_twice) (simp_all add: assms)
  then show ?thesis by (simp add: update_at_def)
qed

theorem update_idempotent_witness:
  "join_value_with_delta (default_policy :: int policy) = (\<lambda>v d area. d) \<and>
   join_deltas (default_policy :: int policy) = (\<lambda>d1 d2. d2) \<and>
   update default_policy 0 0 1 1 5 (update default_policy 0 0 1 1 5 (quadtree 0 blank)) =
     update default_policy 0 0 1 1 5 (quadtree 0 blank) \<and>
   fst (exec default_policy [At 0 0, Query 0 0 3 3]
          (update default_policy 0 0 1 1 5 (update default_policy 0 0 1 1 5 (quadtree 0 blank)))) =
   fst (exec default_policy [At 0 0, Query 0 0 3 3]
          (update default_policy 0 0 1 1 5 (quadtree 0 blank)))"
  using update_idempotent [of "default_policy :: int policy" 0 0 1 1 5 "quadtree 0 blank"
          0 0 "[At 0 0, Query 0 0 3 3]"]
  by (simp add: default_policy_def)

subsection \<open>Termination\<close>

text \<open>
  C8. For a target rectangle with \<open>r1 \<le> r2\<close>, \<open>c1 \<le> c2\<close> and all indices within the
  bounds, the recursion of \<^verbatim>\<open>update\<close> and the recursion of \<^verbatim>\<open>query\<close> from the root
  rectangle are well-founded: the call of the public \<^verbatim>\<open>update\<close> or \<^verbatim>\<open>query\<close> on
  any tree lies in the domain of the recursive function, the set of arguments
  from which every chain of recursive calls is finite. The point forms \<^verbatim>\<open>update(r,
  c, d)\<close> and \<^verbatim>\<open>at(r, c)\<close> are the case \<open>r1 = r2\<close>, \<open>c1 = c2\<close>. On every rectangle the
  target overlaps in part the four recursive calls are on rectangles of smaller
  rank.
\<close>

theorem descent_terminates:
  fixes P :: "'a policy"
  assumes "valid_call (Update r1 c1 r2 c2 d)"
  shows "update_n_dom
           (P, t\<lparr>tgt_r1 := r1, tgt_c1 := c1, tgt_r2 := r2, tgt_c2 := c2, delta := d\<rparr>,
            root t, 0, 0, MAXR, MAXC) \<and>
         query_n_dom
           (P, t\<lparr>tgt_r1 := r1, tgt_c1 := c1, tgt_r2 := r2, tgt_c2 := c2, found := False\<rparr>,
            root t, 0, 0, MAXR, MAXC) \<and>
         (\<forall>(s :: 'a quadtree) a b a' b'. \<not> outside s a b a' b' \<and> \<not> inside s a b a' b' \<longrightarrow>
            list_all (\<lambda>(x, y, x', y'). rank x y x' y' < rank a b a' b') (quadrants a b a' b'))"
proof (intro conjI allI impI)
  have "All (update_n_dom :: 'a policy \<times> 'a quadtree \<times> _ \<Rightarrow> bool)"
    by (relation "measure (\<lambda>(P, t, n, r1, c1, r2, c2). rank r1 c1 r2 c2)")
       (auto dest!: partial_has_long_side simp: rank_quadrants)
  then show "update_n_dom
           (P, t\<lparr>tgt_r1 := r1, tgt_c1 := c1, tgt_r2 := r2, tgt_c2 := c2, delta := d\<rparr>,
            root t, 0, 0, MAXR, MAXC)"
    by blast
  have "All (query_n_dom :: 'a policy \<times> 'a quadtree \<times> _ \<Rightarrow> bool)"
    by (relation "measure (\<lambda>(P, t, n, r1, c1, r2, c2). rank r1 c1 r2 c2)")
       (auto dest!: partial_has_long_side simp: rank_quadrants)
  then show "query_n_dom
           (P, t\<lparr>tgt_r1 := r1, tgt_c1 := c1, tgt_r2 := r2, tgt_c2 := c2, found := False\<rparr>,
            root t, 0, 0, MAXR, MAXC)"
    by blast
next
  fix s :: "'a quadtree" and a b a' b'
  assume "\<not> outside s a b a' b' \<and> \<not> inside s a b a' b'"
  then have "a < a' \<or> b < b'" by (auto dest: partial_has_long_side)
  then show "list_all (\<lambda>(x, y, x', y'). rank x y x' y' < rank a b a' b') (quadrants a b a' b')"
    by (simp add: quadrants_def Let_def rank_quadrants)
qed

theorem descent_terminates_witness:
  "valid_call (Update 0 2 3 2 (9::int)) \<and>
   update_n_dom
     (default_policy, blank\<lparr>tgt_r1 := 0, tgt_c1 := 2, tgt_r2 := 3, tgt_c2 := 2, delta := 9\<rparr>,
      root blank, 0, 0, MAXR, MAXC) \<and>
   query_n_dom
     (default_policy, blank\<lparr>tgt_r1 := 0, tgt_c1 := 2, tgt_r2 := 3, tgt_c2 := 2, found := False\<rparr>,
      root blank, 0, 0, MAXR, MAXC)"
proof -
  have v: "valid_call (Update 0 2 3 2 (9::int))"
    by (simp add: MAXR_def MAXC_def)
  from descent_terminates [OF v, of default_policy blank] v show ?thesis
    by blast
qed

subsection \<open>The children of a node that update descends through\<close>

text \<open>
  C9. The private \<^verbatim>\<open>update\<close> creates the node it is called on before it tests the
  rectangle against the target: on a null pointer and a rectangle outside the
  target it returns the node just created. So after the four recursive calls on
  a rectangle that the target overlaps in part, all four children are there, and
  the loop that joins their values reads none through a null pointer.
\<close>

theorem children_materialised:
  "(outside t r1 c1 r2 c2 \<longrightarrow>
      update_n P t None r1 c1 r2 c2 =
        new_node (indet t) (join_region P (init t) (int_mul (r2 - r1 + 1) (c2 - r1 + 1)))) \<and>
   (\<not> outside t r1 c1 r2 c2 \<and> \<not> inside t r1 c1 r2 c2 \<longrightarrow>
      (\<exists>k0 k1 k2 k3.
         children (update_n P t n r1 c1 r2 c2) = [Some k0, Some k1, Some k2, Some k3] \<and>
         nvalue (update_n P t n r1 c1 r2 c2) =
           join_children P [k0, k1, k2, k3] (nvalue (arrive P t n r1 c1 r2 c2))))"
  by (simp add: update_n_outside update_n_partial arrive_def update_delta_idle pending_new_node
        Let_def children_def join_children4)

theorem children_materialised_witness:
  "outside (blank\<lparr>tgt_r1 := 0, tgt_c1 := 0, tgt_r2 := 0, tgt_c2 := 0\<rparr>) 1 1 1 1 \<and>
   update_n default_policy (blank\<lparr>tgt_r1 := 0, tgt_c1 := 0, tgt_r2 := 0, tgt_c2 := 0\<rparr>)
     None 1 1 1 1 = new_node 0 0 \<and>
   \<not> outside (blank\<lparr>tgt_r1 := 0, tgt_c1 := 0, tgt_r2 := 0, tgt_c2 := 0\<rparr>) 0 0 1 1 \<and>
   \<not> inside (blank\<lparr>tgt_r1 := 0, tgt_c1 := 0, tgt_r2 := 0, tgt_c2 := 0\<rparr>) 0 0 1 1 \<and>
   (\<exists>k0 k1 k2 k3.
      children (update_n default_policy
                  (blank\<lparr>tgt_r1 := 0, tgt_c1 := 0, tgt_r2 := 0, tgt_c2 := 0\<rparr>) None 0 0 1 1) =
        [Some k0, Some k1, Some k2, Some k3])"
proof -
  let ?t = "blank\<lparr>tgt_r1 := 0, tgt_c1 := 0, tgt_r2 := 0, tgt_c2 := 0\<rparr>"
  have o: "outside ?t 1 1 1 1" and p: "\<not> outside ?t 0 0 1 1" "\<not> inside ?t 0 0 1 1"
    by (simp_all add: outside_def inside_def blank_def)
  from children_materialised [of ?t 1 1 1 1 default_policy None] o
  have "update_n default_policy ?t None 1 1 1 1 = new_node 0 0"
    by (simp add: default_policy_def blank_def)
  moreover from children_materialised [of ?t 0 0 1 1 default_policy None] p
  have "\<exists>k0 k1 k2 k3. children (update_n default_policy ?t None 0 0 1 1) =
          [Some k0, Some k1, Some k2, Some k3]"
    by blast
  ultimately show ?thesis using o p by simp
qed

subsection \<open>Areas as products in int\<close>

text \<open>
  C10. The claim is that every area handed to \<open>join_region\<close> and
  \<open>join_value_with_delta\<close> is the product, in \<^verbatim>\<open>int\<close>, of the number of rows and the
  number of columns. The node that \<^verbatim>\<open>update\<close> creates gets the product
  \<open>(r2 - r1 + 1)*(c2 - r1 + 1)\<close> instead: for \<open>child[2]\<close> of the root, the rectangle
  \<open>[0, 500000000] \<times> [500000001, 1000000000]\<close>, that is \<open>756690689\<close>, where rows times
  columns is \<open>128345344\<close> in \<^verbatim>\<open>int\<close>; with the sum policy and \<open>init = 1\<close>, a query of this
  rectangle returns the one on a new tree and the other after \<open>update(0, 0, 0)\<close>.
  The other areas are as claimed, for every rectangle: the resolution of a
  pending node hands rows times columns to \<open>join_value_with_delta\<close> and creates
  each absent child with rows times columns of its quadrant; \<^verbatim>\<open>query\<close> hands the
  rows times the columns of the overlap to \<open>join_region\<close> for an absent node, and
  those of the target when nothing was found; each product is taken modulo
  \<open>2^32\<close> into the range of \<^verbatim>\<open>int\<close>, \<open>513381377\<close> for the root.
\<close>

theorem areas_passed:
  "arrive P t None r1 c1 r2 c2 =
     new_node (indet t) (join_region P (init t) (int_mul (r2 - r1 + 1) (c2 - r1 + 1))) \<and>
   update_n P (t\<lparr>tgt_r1 := 0, tgt_c1 := 0, tgt_r2 := 0, tgt_c2 := 0\<rparr>) None
       0 500000001 500000000 1000000000 =
     new_node (indet t) (join_region P (init t) 756690689) \<and>
   int_mul (500000000 - 0 + 1) (1000000000 - 500000001 + 1) = 128345344 \<and>
   fst (query sum_policy 0 500000001 500000000 1000000000 (quadtree 1 blank)) = 128345344 \<and>
   fst (exec sum_policy [UpdateAt 0 0 0, Query 0 500000001 500000000 1000000000]
          (quadtree 1 blank)) = [756690689] \<and>
   nvalue (update_delta P t (Node v dl True k0 k1 k2 k3) r1 c1 r2 c2) =
     join_value_with_delta P v (delta t) (int_mul (r2 - r1 + 1) (c2 - c1 + 1)) \<and>
   children (update_delta P t (Node v dl True None None None None) r1 c1 r2 c2) =
     (if 1 < int_mul (r2 - r1 + 1) (c2 - c1 + 1)
      then map (\<lambda>(a, b, a', b').
                  Some (Node (join_region P (init t) (int_mul (a' - a + 1) (b' - b + 1)))
                          (delta t) True None None None None))
             (quadrants r1 c1 r2 c2)
      else [None, None, None, None]) \<and>
   query_n P t None r1 c1 r2 c2 =
     (if outside t r1 c1 r2 c2 then (None, t)
      else (None, contribute P
              (join_region P (init t)
                 (int_mul (min r2 (tgt_r2 t) - max r1 (tgt_r1 t) + 1)
                          (min c2 (tgt_c2 t) - max c1 (tgt_c1 t) + 1))) t)) \<and>
   fst (query P (MAXR + 1) c1 r2 c2 t) =
     join_region P (init t) (int_mul (r2 - (MAXR + 1) + 1) (c2 - c1 + 1)) \<and>
   fst (query P 0 0 MAXR MAXC (quadtree v h)) = join_region P v 513381377 \<and>
   (MAXR + 1) * (MAXC + 1) = 1000000002000000001 \<and>
   (int_mul a b - a * b) mod 4294967296 = 0 \<and>
   - 2147483648 \<le> int_mul a b \<and> int_mul a b < 2147483648"
proof (intro conjI)
  show "arrive P t None r1 c1 r2 c2 =
     new_node (indet t) (join_region P (init t) (int_mul (r2 - r1 + 1) (c2 - r1 + 1)))"
    by (simp add: arrive_def update_delta_idle pending_new_node)
  show "update_n P (t\<lparr>tgt_r1 := 0, tgt_c1 := 0, tgt_r2 := 0, tgt_c2 := 0\<rparr>) None
       0 500000001 500000000 1000000000 =
     new_node (indet t) (join_region P (init t) 756690689)"
    by (simp add: update_n_outside outside_def arrive_def update_delta_idle pending_new_node
          int_mul_def)
  show "int_mul (500000000 - 0 + 1) (1000000000 - 500000001 + 1) = 128345344"
    by (simp add: int_mul_def)
  show "fst (query sum_policy 0 500000001 500000000 1000000000 (quadtree 1 blank)) = 128345344"
    by code_simp
  show "fst (exec sum_policy [UpdateAt 0 0 0, Query 0 500000001 500000000 1000000000]
          (quadtree 1 blank)) = [756690689]"
    by code_simp
  show "nvalue (update_delta P t (Node v dl True k0 k1 k2 k3) r1 c1 r2 c2) =
     join_value_with_delta P v (delta t) (int_mul (r2 - r1 + 1) (c2 - c1 + 1))"
    by (simp add: update_delta_def Let_def)
  have eq: "r2 - r1 + 1 - ((r1 + r2) div 2 - r1 + 1) = r2 - ((r1 + r2) div 2 + 1) + 1"
    "c2 - c1 + 1 - ((c1 + c2) div 2 - c1 + 1) = c2 - ((c1 + c2) div 2 + 1) + 1"
    by simp_all
  show "children (update_delta P t (Node v dl True None None None None) r1 c1 r2 c2) =
     (if 1 < int_mul (r2 - r1 + 1) (c2 - c1 + 1)
      then map (\<lambda>(a, b, a', b').
                  Some (Node (join_region P (init t) (int_mul (a' - a + 1) (b' - b + 1)))
                          (delta t) True None None None None))
             (quadrants r1 c1 r2 c2)
      else [None, None, None, None])"
    unfolding update_delta_def update_delta_d_def children_def quadrants_def Let_def new_node_def
    by (simp only: eq) simp
  show "query_n P t None r1 c1 r2 c2 =
     (if outside t r1 c1 r2 c2 then (None, t)
      else (None, contribute P
              (join_region P (init t)
                 (int_mul (min r2 (tgt_r2 t) - max r1 (tgt_r1 t) + 1)
                          (min c2 (tgt_c2 t) - max c1 (tgt_c1 t) + 1))) t))"
    by (simp add: query_n_outside query_n_absent)
  show "fst (query P (MAXR + 1) c1 r2 c2 t) =
     join_region P (init t) (int_mul (r2 - (MAXR + 1) + 1) (c2 - c1 + 1))"
    by (simp add: query_unfold Let_def query_n_outside outside_def)
  show "fst (query P 0 0 MAXR MAXC (quadtree v h)) = join_region P v 513381377"
    by (simp add: query_unfold Let_def quadtree_def query_n_absent outside_def contribute_def
          MAXR_def MAXC_def int_mul_def)
  show "(MAXR + 1) * (MAXC + 1) = 1000000002000000001"
    by (simp add: MAXR_def MAXC_def)
  have "((a * b + 2147483648) mod 4294967296 - (2147483648 + a * b)) mod 4294967296 =
        ((a * b + 2147483648) - (2147483648 + a * b)) mod 4294967296"
    by (rule mod_diff_left_eq)
  then show "(int_mul a b - a * b) mod 4294967296 = 0"
    by (simp add: int_mul_def algebra_simps)
  show "- 2147483648 \<le> int_mul a b"
    using pos_mod_sign [of 4294967296 "a * b + 2147483648"] by (simp add: int_mul_def)
  show "int_mul a b < 2147483648"
    using pos_mod_bound [of 4294967296 "a * b + 2147483648"] by (simp add: int_mul_def)
qed

section \<open>Further properties\<close>

text \<open>
  X1. The point forms are the rectangle forms on a rectangle of one cell:
  \<open>at(r, c)\<close> is \<open>query(r, c, r, c)\<close> and \<open>update(r, c, d)\<close> is \<open>update(r, c, r, c, d)\<close>,
  in the result and in the tree they leave.
\<close>

theorem point_forms:
  "at P r c t = query P r c r c t \<and> update_at P r c d t = update P r c r c d t"
  by (simp add: at_def update_at_def)

text \<open>
  X2. The four quadrants tile the rectangle: every cell of a rectangle lies in
  exactly one of its quadrants, so a descent neither skips a cell nor counts it
  twice, whatever the parity of the side lengths.
\<close>

theorem quadrants_tile:
  assumes "holds (r1, c1, r2, c2) r c"
  shows "length (filter (\<lambda>Q. holds Q r c) (quadrants r1 c1 r2 c2)) = 1"
  using assms by (auto simp: holds_def quadrants_def Let_def)

theorem quadrants_tile_witness:
  "holds (0, 0, 1000000000, 1000000000) 500000000 500000001 \<and>
   length (filter (\<lambda>Q. holds Q 500000000 500000001)
             (quadrants 0 0 1000000000 1000000000)) = 1"
proof -
  have h: "holds (0, 0, 1000000000, 1000000000) 500000000 500000001"
    by (simp add: holds_def)
  from quadrants_tile [OF h] h show ?thesis by simp
qed

text \<open>
  X3. With the functions of the source, and with every policy whose \<open>join_region\<close>
  returns its first argument and whose \<open>join_values\<close> returns \<open>x\<close> on \<open>x\<close> and \<open>x\<close>, a
  query over a rectangle within the bounds that is apart from the rectangle of
  every update before it returns \<open>init\<close>, after every sequence of valid calls. On
  a tree just constructed, and for every policy, a query within the bounds
  returns \<open>join_region\<close> of \<open>init\<close> and the product \<open>(r2 - r1 + 1)*(c2 - c1 + 1)\<close> in
  \<^verbatim>\<open>int\<close>, which is the area whenever the area is below \<open>2^31\<close>.
\<close>

theorem untouched_region:
  assumes "valid_call (Query r1 c1 r2 c2)"
  shows "fst (query P r1 c1 r2 c2 (quadtree v h)) =
           join_region P v (int_mul (r2 - r1 + 1) (c2 - c1 + 1)) \<and>
         ((r2 - r1 + 1) * (c2 - c1 + 1) < 2147483648 \<longrightarrow>
            int_mul (r2 - r1 + 1) (c2 - c1 + 1) = (r2 - r1 + 1) * (c2 - c1 + 1)) \<and>
         ((\<forall>x a. join_region P x a = x) \<and> (\<forall>x. join_values P x x = x) \<and>
          list_all valid_call cs \<and> list_all (\<lambda>T. apart T (r1, c1, r2, c2)) (targets cs) \<longrightarrow>
            fst (query P r1 c1 r2 c2 (snd (exec P cs (quadtree v h)))) =
              join_region P v ((r2 - r1 + 1) * (c2 - c1 + 1)))"
proof (intro conjI impI)
  show "fst (query P r1 c1 r2 c2 (quadtree v h)) =
          join_region P v (int_mul (r2 - r1 + 1) (c2 - c1 + 1))"
    using assms by (rule fresh_query)
next
  assume small: "(r2 - r1 + 1) * (c2 - c1 + 1) < 2147483648"
  from assms have "0 \<le> r2 - r1 + 1" "0 \<le> c2 - c1 + 1" by simp_all
  then have "0 \<le> (r2 - r1 + 1) * (c2 - c1 + 1)" by (rule mult_nonneg_nonneg)
  with small show "int_mul (r2 - r1 + 1) (c2 - c1 + 1) = (r2 - r1 + 1) * (c2 - c1 + 1)"
    by (simp add: int_mul_def)
next
  assume h: "(\<forall>x a. join_region P x a = x) \<and> (\<forall>x. join_values P x x = x) \<and>
    list_all valid_call cs \<and> list_all (\<lambda>T. apart T (r1, c1, r2, c2)) (targets cs)"
  then have "fst (query P r1 c1 r2 c2 (snd (exec P cs (quadtree v h)))) = v"
    using assms by (intro untouched_general) simp_all
  with h show "fst (query P r1 c1 r2 c2 (snd (exec P cs (quadtree v h)))) =
      join_region P v ((r2 - r1 + 1) * (c2 - c1 + 1))"
    by simp
qed

theorem untouched_region_witness:
  "valid_call (Query 3 3 4 4 :: int call) \<and>
   list_all valid_call [Update 0 0 1 1 5, At 0 0, UpdateAt 7 7 (9::int)] \<and>
   fst (query default_policy 3 3 4 4 (quadtree (0::int) blank)) = 0 \<and>
   fst (query default_policy 3 3 4 4
         (snd (exec default_policy [Update 0 0 1 1 5, At 0 0, UpdateAt 7 7 9]
                 (quadtree (0::int) blank)))) = 0"
  using untouched_region [of 3 3 4 4 default_policy "0::int" blank
          "[Update 0 0 1 1 5, At 0 0, UpdateAt 7 7 9]"]
  by (simp add: MAXR_def MAXC_def default_policy_def apart_def misses_def)

end
